theory Spec2Isabelle
  imports Complex_Main
begin

section \<open>JavaScript values used by the generation service\<close>

text \<open>
  Strings are lists of code units; the model covers the code units 0..255, which is
  enough for every literal of the source. A thrown value is either an \<open>Error\<close> object,
  of which only the message is ever read, or some other value.
\<close>

datatype thrown = JsError string | NonError

text \<open>
  \<open>if (s)\<close> on an optional string: \<open>undefined\<close> and the empty string are falsy.
  \<open>truthy\<close> returns the string when the test succeeds.
\<close>

fun truthy :: "string option \<Rightarrow> string option" where
  "truthy None = None"
| "truthy (Some s) = (if s = [] then None else Some s)"

text \<open>The code units below 256 that \<open>String.prototype.trim\<close> removes:
  TAB, LF, VT, FF, CR, SPACE and NBSP.\<close>

definition isWhiteSpace :: "char \<Rightarrow> bool" where
  "isWhiteSpace c = (c \<in> set [CHR 0x09, CHR 0x0A, CHR 0x0B, CHR 0x0C, CHR 0x0D, CHR 0x20, CHR 0xA0])"

definition trim :: "string \<Rightarrow> string" where
  "trim s = rev (dropWhile isWhiteSpace (rev (dropWhile isWhiteSpace s)))"

text \<open>The code units below 256 that \<open>.\<close> of a regular expression does not match.\<close>

definition isLineTerminator :: "char \<Rightarrow> bool" where
  "isLineTerminator c = (c = CHR 0x0A \<or> c = CHR 0x0D)"

section \<open>Parts and responses\<close>

record Blob =
  data :: string
  mimeType :: string

record Part =
  inlineData :: "Blob option"
  partText :: "string option"

text \<open>
  Modelled from the spec: the type \<open>GenerateContentResponse\<close> is declared by the
  client library, which is not part of the sources. The service reads two things of a
  response, \<open>candidates[0].content.parts\<close> and \<open>candidates[0].finishReason\<close>; the record
  holds these two, as the spec's description of a response does (an ordered list of
  parts plus a stop-reason code).
\<close>

record GenerateContentResponse =
  parts :: "Part list"
  finishReason :: string

section \<open>geminiService.ts: helper functions\<close>

fun stripPrefix :: "string \<Rightarrow> string \<Rightarrow> string option" where
  "stripPrefix [] ys = Some ys"
| "stripPrefix (x # xs) [] = None"
| "stripPrefix (x # xs) (y # ys) = (if x = y then stripPrefix xs ys else None)"

definition supportedMimes :: "string list" where
  "supportedMimes = [''image/png'', ''image/jpeg'', ''image/webp'']"

text \<open>
  The alternatives of \<open>image\/(?:png|jpeg|webp)\<close> are tried in order; each must be
  followed by \<open>;base64,\<close> and then by \<open>(.*)$\<close>, that is by a rest of the input
  without line terminator.
\<close>

fun matchMime :: "string list \<Rightarrow> string \<Rightarrow> (string \<times> string) option" where
  "matchMime [] rest = None"
| "matchMime (m # ms) rest =
     (case stripPrefix (m @ '';base64,'') rest of
        None \<Rightarrow> matchMime ms rest
      | Some payload \<Rightarrow>
          if list_all (\<lambda>c. \<not> isLineTerminator c) payload then Some (m, payload)
          else matchMime ms rest)"

text \<open>\<open>dataUrl.match(/^data:(image\/(?:png|jpeg|webp));base64,(.*)$/)\<close>:
  the two capture groups, or \<open>None\<close> for \<open>null\<close>.\<close>

definition matchDataUrl :: "string \<Rightarrow> (string \<times> string) option" where
  "matchDataUrl dataUrl =
     (case stripPrefix ''data:'' dataUrl of
        None \<Rightarrow> None
      | Some rest \<Rightarrow> matchMime supportedMimes rest)"

definition fileToGenerativePart :: "string \<Rightarrow> thrown + Part" where
  "fileToGenerativePart dataUrl =
     (case matchDataUrl dataUrl of
        None \<Rightarrow> Inl (JsError ''Invalid data URL format'')
      | Some (mime, payload) \<Rightarrow>
          Inr \<lparr>inlineData = Some \<lparr>data = payload, mimeType = mime\<rparr>, partText = None\<rparr>)"

text \<open>The \<open>for\<close> loop of \<open>extractImageData\<close>: the data URI of the first part that has
  inline data.\<close>

fun extractLoop :: "Part list \<Rightarrow> string option" where
  "extractLoop [] = None"
| "extractLoop (part # rest) =
     (case inlineData part of
        Some b \<Rightarrow> Some (''data:'' @ mimeType b @ '';base64,'' @ data b)
      | None \<Rightarrow> extractLoop rest)"

definition extractImageData :: "GenerateContentResponse \<Rightarrow> thrown + string" where
  "extractImageData response =
     (case extractLoop (parts response) of
        Some uri \<Rightarrow> Inr uri
      | None \<Rightarrow>
          if finishReason response \<noteq> ''STOP'' \<and> finishReason response \<noteq> ''MAX_TOKENS''
          then Inl (JsError (''Image generation stopped due to: '' @ finishReason response
                              @ ''. Check safety ratings.''))
          else Inl (JsError ''No image was generated. The model may have refused the request.''))"

text \<open>
  The source raises plain \<open>Error\<close> objects; the spec names them by kind. The three
  definitions below give each of the spec's kinds the \<open>Error\<close> the source raises for it.
\<close>

definition InvalidInput :: thrown where
  "InvalidInput = JsError ''Invalid data URL format''"

definition GenerationRefused :: "string \<Rightarrow> thrown" where
  "GenerationRefused reason =
     JsError (''Image generation stopped due to: '' @ reason @ ''. Check safety ratings.'')"

definition NoImageProduced :: thrown where
  "NoImageProduced = JsError ''No image was generated. The model may have refused the request.''"

section \<open>geminiService.ts: generatePosedVariation\<close>

record PoseGuidance =
  guidanceText :: "string option"
  referenceImage :: "string option"
  sketchImage :: "string option"

definition basePrompt :: string where
  "basePrompt =
     ''Your task is to regenerate the person from the provided primary model image.\<newline>'' @
     ''\<newline>'' @
     ''**CRITICAL INSTRUCTIONS (MUST be followed):**\<newline>'' @
     ''1.  **Preserve Identity & Outfit:** The person's face, body, and clothing in the generated image MUST be 100% identical to the primary model image (the first image provided). This is the most important rule.\<newline>'' @
     ''2.  **Apply New Pose/Angle:** Change the person's pose and the camera angle according to the specific guidance provided below.\<newline>'' @
     ''3.  **Vary Background & Style:** The background should be new, diverse, and photorealistic, complementing the new pose. The overall photographic style (e.g., lighting, mood) can also be varied creatively.\<newline>''"

definition referenceClause :: string where
  "referenceClause = ''\<newline>**Pose Guidance:** The second image provided is a pose reference. Re-create the person from the primary model image in the exact pose shown in the reference image. The identity and clothing must come from the primary model image; ONLY the pose comes from the reference image.''"

definition sketchClause :: string where
  "sketchClause = ''\<newline>**Pose Guidance:** The second image provided is a sketch. Re-create the person from the primary model image following the pose and composition outlined in the sketch. The identity and clothing must come from the primary model image.''"

definition textClause :: "string \<Rightarrow> string" where
  "textClause t = ''\<newline>**Pose Guidance:** Re-create the person in this specific pose/style: \"'' @ t @ ''\"''"

definition refinementClause :: "string \<Rightarrow> string" where
  "refinementClause t = ''\<newline>**Refinement:** Additionally, apply the following style: \"'' @ t @ ''\".''"

text \<open>
  The \<open>if\<close>/\<open>else if\<close> chain on the guidance: the parts pushed after the model image
  and the clause added to the prompt, or the error of \<open>fileToGenerativePart\<close>.
\<close>

definition guidanceBranch :: "PoseGuidance \<Rightarrow> thrown + (Part list \<times> string)" where
  "guidanceBranch guidance =
     (case truthy (referenceImage guidance) of
        Some refImg \<Rightarrow>
          (case fileToGenerativePart refImg of
             Inl e \<Rightarrow> Inl e
           | Inr p \<Rightarrow> Inr ([p], referenceClause))
      | None \<Rightarrow>
          (case truthy (sketchImage guidance) of
             Some sk \<Rightarrow>
               (case fileToGenerativePart sk of
                  Inl e \<Rightarrow> Inl e
                | Inr p \<Rightarrow> Inr ([p], sketchClause))
           | None \<Rightarrow>
               (case truthy (guidanceText guidance) of
                  Some t \<Rightarrow> Inr ([], textClause t)
                | None \<Rightarrow> Inr ([], []))))"

text \<open>The second \<open>if\<close>: the refinement clause, in an image-guidance mode with a
  text that is not blank.\<close>

definition refinementBranch :: "PoseGuidance \<Rightarrow> string" where
  "refinementBranch guidance =
     (if truthy (referenceImage guidance) \<noteq> None \<or> truthy (sketchImage guidance) \<noteq> None
      then (case truthy (guidanceText guidance) of
              Some t \<Rightarrow> if trim t \<noteq> [] then refinementClause t else []
            | None \<Rightarrow> [])
      else [])"

text \<open>
  The body of \<open>generatePosedVariation\<close> up to the network call: the parts it has
  assembled when it calls \<open>callGeminiImageModel\<close>, or the error thrown before.
\<close>

definition assembleParts :: "string \<Rightarrow> PoseGuidance \<Rightarrow> thrown + Part list" where
  "assembleParts modelImage guidance =
     (case fileToGenerativePart modelImage of
        Inl e \<Rightarrow> Inl e
      | Inr modelPart \<Rightarrow>
          (case guidanceBranch guidance of
             Inl e \<Rightarrow> Inl e
           | Inr (imgs, clause) \<Rightarrow>
               Inr ([modelPart] @ imgs @
                    [\<lparr>inlineData = None,
                      partText = Some (basePrompt @ clause @ refinementBranch guidance)\<rparr>])))"

text \<open>
  The remote model is a parameter: \<open>net\<close> maps the parts of a request to the error the
  call throws or to the response. The result is the list of requests sent over the
  network, and the value returned or thrown.
\<close>

definition generatePosedVariation ::
  "(Part list \<Rightarrow> thrown + GenerateContentResponse) \<Rightarrow> string \<Rightarrow> PoseGuidance
     \<Rightarrow> Part list list \<times> (thrown + string)" where
  "generatePosedVariation net modelImage guidance =
     (case assembleParts modelImage guidance of
        Inl e \<Rightarrow> ([], Inl e)
      | Inr ps \<Rightarrow>
          ([ps], case net ps of
                   Inl e \<Rightarrow> Inl e
                 | Inr response \<Rightarrow> extractImageData response))"




section \<open>App.tsx: state and prompts\<close>

datatype PoseGuidanceMode = TextMode | ReferenceMode | SketchMode

text \<open>The status the source writes \<open>'pending'\<close>, \<open>'done'\<close> and \<open>'error'\<close>; the spec calls
  the last one Failed.\<close>

datatype jobStatus = Pending | Done | Failed

record GeneratedImage =
  imageId :: nat
  status :: jobStatus
  url :: "string option"
  error :: "string option"

definition RANDOM_POSES :: "string list" where
  "RANDOM_POSES =
     [''A full-body shot, walking confidently towards the camera.'',
      ''A portrait taken from a side profile.'',
      ''A three-quarter portrait, looking thoughtfully away.'',
      ''A medium shot with arms crossed, looking at the camera.'',
      ''A dynamic full-body shot captured mid-jump.'',
      ''A photo taken from a high angle, looking down.'',
      ''A close-up, glancing over their shoulder.'',
      ''A full-body shot in a crouching pose.'',
      ''A candid-style photo, captured in an unposed moment.'',
      ''A professional headshot from the chest up with a friendly smile.'']"

text \<open>The state of the component that \<open>handleGenerate\<close> reads.\<close>

record AppState =
  modelImage :: "string option"
  poseReferenceImage :: "string option"
  poseSketchImage :: "string option"
  poseGuidanceMode :: PoseGuidanceMode
  numVariations :: nat
  customPrompt :: string

text \<open>\<open>xs[k]\<close> of JavaScript: \<open>undefined\<close> outside the array.\<close>

definition arrayGet :: "'a list \<Rightarrow> int \<Rightarrow> 'a option" where
  "arrayGet xs k = (if 0 \<le> k \<and> k < int (length xs) then Some (xs ! nat k) else None)"

text \<open>
  The array \<open>prompts\<close>. \<open>Math.random\<close> is a parameter: \<open>random i\<close> is the number the
  \<open>i\<close>-th call returns (\<open>Array.from\<close> calls its function once per index, in order),
  taken as a real number.
\<close>

definition makePrompts :: "(nat \<Rightarrow> real) \<Rightarrow> AppState \<Rightarrow> string option list" where
  "makePrompts random app =
     (if trim (customPrompt app) \<noteq> []
      then replicate (numVariations app) (Some (customPrompt app))
      else map (\<lambda>i. arrayGet RANDOM_POSES \<lfloor>random i * real (length RANDOM_POSES)\<rfloor>)
               [0..<numVariations app])"

text \<open>The guidance \<open>processNext\<close> passes to \<open>generatePosedVariation\<close>.\<close>

definition jobGuidance :: "AppState \<Rightarrow> string option \<Rightarrow> PoseGuidance" where
  "jobGuidance app promptText =
     \<lparr>guidanceText =
        (if poseGuidanceMode app = TextMode then promptText else Some (customPrompt app)),
      referenceImage =
        (if poseGuidanceMode app = ReferenceMode then poseReferenceImage app else None),
      sketchImage =
        (if poseGuidanceMode app = SketchMode then poseSketchImage app else None)\<rparr>"

section \<open>App.tsx: the dispatcher\<close>

text \<open>
  JavaScript runs the asynchronous functions of \<open>processQueue\<close> on one thread; a task
  runs until it reaches an \<open>await\<close>. A worker is therefore always at one of three
  places: suspended in \<open>processNext\<close> at \<open>await generatePosedVariation(...)\<close> for the
  job it claimed (the call's two arguments are kept, the call having been made);
  suspended at \<open>await processNext()\<close> with \<open>processNext\<close> returned; or returned.
\<close>

datatype worker = Awaiting nat string PoseGuidance | Resuming | Finished

text \<open>
  \<open>claimLog\<close> is a history of the run, which the code does not have and no
  transition reads: the worker and the index of every \<open>queue.shift()\<close>, in order.
\<close>

record RunState =
  queue :: "(nat \<times> string option) list"
  generatedImages :: "GeneratedImage list"
  completedCount :: nat
  progress :: nat
  workers :: "worker list"
  isLoading :: bool
  claimLog :: "(nat \<times> nat) list"

definition concurrencyLimit :: nat where
  "concurrencyLimit = 5"

text \<open>\<open>handleGenerate\<close> from \<open>setIsLoading(true)\<close> to the creation of the queue.\<close>

definition initRun :: "string option list \<Rightarrow> RunState" where
  "initRun prompts =
     \<lparr>queue = enumerate 0 prompts,
      generatedImages =
        map (\<lambda>i. \<lparr>imageId = i, status = Pending, url = None, error = None\<rparr>) [0..<length prompts],
      completedCount = 0,
      progress = 0,
      workers = [],
      isLoading = True,
      claimLog = []\<rparr>"

text \<open>\<open>processNext\<close> up to its \<open>await\<close>, run by worker \<open>w\<close>; \<open>mi\<close> is the model image,
  which \<open>handleGenerate\<close> has tested.\<close>

definition processNext :: "AppState \<Rightarrow> string \<Rightarrow> nat \<Rightarrow> RunState \<Rightarrow> RunState" where
  "processNext app mi w s =
     (case queue s of
        [] \<Rightarrow> s\<lparr>workers := (workers s)[w := Resuming]\<rparr>
      | (index, promptText) # rest \<Rightarrow>
          s\<lparr>queue := rest,
            claimLog := claimLog s @ [(w, index)],
            workers := (workers s)[w := Awaiting index mi (jobGuidance app promptText)]\<rparr>)"

text \<open>The body of a worker from the test of its \<open>while\<close> to the next suspension.\<close>

definition workerLoop :: "AppState \<Rightarrow> string \<Rightarrow> nat \<Rightarrow> RunState \<Rightarrow> RunState" where
  "workerLoop app mi w s =
     (if length (queue s) > 0 then processNext app mi w s
      else s\<lparr>workers := (workers s)[w := Finished]\<rparr>)"

text \<open>\<open>Array(concurrencyLimit).fill(null).map(async () => ...)\<close> calls the worker
  function once per element; each call runs to its first suspension before the next
  call is made.\<close>

definition startWorker :: "AppState \<Rightarrow> string \<Rightarrow> RunState \<Rightarrow> RunState" where
  "startWorker app mi s =
     workerLoop app mi (length (workers s)) (s\<lparr>workers := workers s @ [Resuming]\<rparr>)"

definition processQueue :: "nat \<Rightarrow> AppState \<Rightarrow> string \<Rightarrow> RunState \<Rightarrow> RunState" where
  "processQueue limit app mi s = (startWorker app mi ^^ limit) s"

text \<open>\<open>e instanceof Error ? e.message : "An unknown error occurred during generation."\<close>\<close>

definition errorMessage :: "thrown \<Rightarrow> string" where
  "errorMessage e =
     (case e of JsError msg \<Rightarrow> msg
      | NonError \<Rightarrow> ''An unknown error occurred during generation.'')"

text \<open>The rest of \<open>processNext\<close>, from the settled call to the end of \<open>finally\<close>.\<close>

definition settle :: "nat \<Rightarrow> nat \<Rightarrow> thrown + string \<Rightarrow> RunState \<Rightarrow> RunState" where
  "settle w index outcome s =
     (let imgs =
        (case outcome of
           Inr u \<Rightarrow>
             map (\<lambda>img. if imageId img = index then img\<lparr>status := Done, url := Some u\<rparr> else img)
                 (generatedImages s)
         | Inl e \<Rightarrow>
             map (\<lambda>img. if imageId img = index
                         then img\<lparr>status := Failed, error := Some (errorMessage e)\<rparr> else img)
                 (generatedImages s))
      in s\<lparr>generatedImages := imgs,
           completedCount := completedCount s + 1,
           progress := completedCount s + 1,
           workers := (workers s)[w := Resuming]\<rparr>)"

text \<open>
  What the event loop can do next: resume worker \<open>w\<close> in \<open>processNext\<close> with the outcome
  of its call, the network having answered \<open>reply\<close> (an error thrown or a response);
  resume worker \<open>w\<close> after \<open>processNext\<close>; or, all workers returned, resume
  \<open>handleGenerate\<close> after \<open>await processQueue()\<close>, which sets \<open>isLoading\<close> to false. The
  order of the events is not constrained: every order the event loop can produce is
  an order of the model.
\<close>

datatype event = Settle nat "thrown + GenerateContentResponse" | Resume nat | Complete

fun step :: "AppState \<Rightarrow> string \<Rightarrow> event \<Rightarrow> RunState \<Rightarrow> RunState option" where
  "step app mi (Settle w reply) s =
     (if w < length (workers s)
      then (case workers s ! w of
              Awaiting index m g \<Rightarrow>
                Some (settle w index (snd (generatePosedVariation (\<lambda>_. reply) m g)) s)
            | Resuming \<Rightarrow> None
            | Finished \<Rightarrow> None)
      else None)"
| "step app mi (Resume w) s =
     (if w < length (workers s) \<and> workers s ! w = Resuming
      then Some (workerLoop app mi w s) else None)"
| "step app mi Complete s =
     (if isLoading s \<and> list_all (\<lambda>x. x = Finished) (workers s)
      then Some (s\<lparr>isLoading := False\<rparr>) else None)"

fun run :: "AppState \<Rightarrow> string \<Rightarrow> event list \<Rightarrow> RunState \<Rightarrow> RunState option" where
  "run app mi [] s = Some s"
| "run app mi (e # es) s =
     (case step app mi e s of None \<Rightarrow> None | Some s' \<Rightarrow> run app mi es s')"

text \<open>
  \<open>handleGenerate\<close> up to its first suspension, with the concurrency limit as a
  parameter: the message of \<open>setError\<close> when an input is missing, and otherwise the
  state in which the workers are launched.
\<close>

definition handleGenerateWith ::
  "nat \<Rightarrow> (nat \<Rightarrow> real) \<Rightarrow> AppState \<Rightarrow> string + RunState" where
  "handleGenerateWith limit random app =
     (case truthy (modelImage app) of
        None \<Rightarrow> Inl ''Please upload a model image first.''
      | Some mi \<Rightarrow>
          if poseGuidanceMode app = ReferenceMode \<and> truthy (poseReferenceImage app) = None
          then Inl ''Please upload a reference image for pose extraction.''
          else if poseGuidanceMode app = SketchMode \<and> truthy (poseSketchImage app) = None
          then Inl ''Please upload a sketch for pose guidance.''
          else Inr (processQueue limit app mi (initRun (makePrompts random app))))"

definition handleGenerate :: "(nat \<Rightarrow> real) \<Rightarrow> AppState \<Rightarrow> string + RunState" where
  "handleGenerate random app = handleGenerateWith concurrencyLimit random app"

text \<open>The indices of the jobs in flight, by worker, and the jobs in flight as the
  claims speak of them: claimed (no longer in the queue) and not yet terminal.\<close>

fun inFlightOf :: "worker \<Rightarrow> nat list" where
  "inFlightOf (Awaiting index m g) = [index]"
| "inFlightOf Resuming = []"
| "inFlightOf Finished = []"

definition awaitingIdx :: "worker list \<Rightarrow> nat list" where
  "awaitingIdx ws = concat (map inFlightOf ws)"

definition inFlight :: "RunState \<Rightarrow> GeneratedImage list" where
  "inFlight s =
     filter (\<lambda>img. status img = Pending \<and> imageId img \<notin> fst ` set (queue s)) (generatedImages s)"

definition terminal :: "GeneratedImage \<Rightarrow> bool" where
  "terminal img = (status img = Done \<or> status img = Failed)"

section \<open>Invariant and measure of the dispatcher\<close>

text \<open>
  The facts that hold of every state of a run over \<open>prompts\<close>, in four groups: the
  queue and the history of claims; the jobs; the jobs in flight and the counter; the
  workers. \<open>work\<close> counts what is left to do; every event lowers it by one.
\<close>

definition queueOk :: "string option list \<Rightarrow> RunState \<Rightarrow> bool" where
  "queueOk prompts s =
     (length (claimLog s) \<le> length prompts
      \<and> queue s = drop (length (claimLog s)) (enumerate 0 prompts)
      \<and> map snd (claimLog s) = [0..<length (claimLog s)]
      \<and> list_all (\<lambda>c. fst c < length (workers s)) (claimLog s))"

definition jobsOk :: "string option list \<Rightarrow> RunState \<Rightarrow> bool" where
  "jobsOk prompts s =
     (map imageId (generatedImages s) = [0..<length prompts]
      \<and> (\<forall>i < length prompts. status (generatedImages s ! i) = Pending
            \<longleftrightarrow> (i \<in> set (awaitingIdx (workers s)) \<or> length (claimLog s) \<le> i)))"

definition flightOk :: "RunState \<Rightarrow> bool" where
  "flightOk s =
     (distinct (awaitingIdx (workers s))
      \<and> list_all (\<lambda>i. i < length (claimLog s)) (awaitingIdx (workers s))
      \<and> completedCount s + length (awaitingIdx (workers s)) = length (claimLog s))"

definition workersOk :: "AppState \<Rightarrow> string \<Rightarrow> string option list \<Rightarrow> RunState \<Rightarrow> bool" where
  "workersOk app mi prompts s =
     ((\<forall>w < length (workers s). \<forall>i m g. workers s ! w = Awaiting i m g
            \<longrightarrow> m = mi \<and> g = jobGuidance app (prompts ! i))
      \<and> (Finished \<in> set (workers s) \<longrightarrow> length (claimLog s) = length prompts)
      \<and> (\<not> isLoading s \<longrightarrow> list_all (\<lambda>x. x = Finished) (workers s)))"

definition runInv :: "AppState \<Rightarrow> string \<Rightarrow> string option list \<Rightarrow> RunState \<Rightarrow> bool" where
  "runInv app mi prompts s =
     (queueOk prompts s \<and> jobsOk prompts s \<and> flightOk s \<and> workersOk app mi prompts s)"

text \<open>What the two updaters of settle do to a job.\<close>

definition settleJob :: "nat \<Rightarrow> thrown + string \<Rightarrow> GeneratedImage \<Rightarrow> GeneratedImage" where
  "settleJob index outcome img =
     (if imageId img = index
      then (case outcome of
              Inr u \<Rightarrow> img\<lparr>status := Done, url := Some u\<rparr>
            | Inl e \<Rightarrow> img\<lparr>status := Failed, error := Some (errorMessage e)\<rparr>)
      else img)"

definition work :: "RunState \<Rightarrow> nat" where
  "work s = 2 * length (queue s) + 2 * length (awaitingIdx (workers s))
            + length (filter (\<lambda>x. x = Resuming) (workers s)) + (if isLoading s then 1 else 0)"

section \<open>Extraction of the image from a response\<close>

lemma extractLoop_first:
  "\<forall>q \<in> set ps. inlineData q = None \<Longrightarrow> inlineData p = Some b \<Longrightarrow>
   extractLoop (ps @ p # qs) = Some (''data:'' @ mimeType b @ '';base64,'' @ data b)"
  by (induction ps) auto

lemma extractLoop_none:
  "\<forall>q \<in> set ps. inlineData q = None \<Longrightarrow> extractLoop ps = None"
  by (induction ps) auto

text \<open>
  Claim C8. Extraction returns the first part with inline data as the data URI
  \<open>data:<mime>;base64,<payload>\<close> (the parts before it have none; the parts after it are
  not looked at), so the part \<open>image/png\<close>, \<open>AAA=\<close> gives \<open>data:image/png;base64,AAA=\<close>.
  When no part has inline data, the call throws the refusal error, which carries the
  stop reason, if the stop reason is neither \<open>STOP\<close> nor \<open>MAX_TOKENS\<close>, and the
  no-image error otherwise. The two errors differ, and the refusal error determines
  its stop reason.
\<close>

theorem extractImageData_policy:
  "(\<forall>ps p b qs. parts r = ps @ p # qs \<and> (\<forall>q \<in> set ps. inlineData q = None)
        \<and> inlineData p = Some b
      \<longrightarrow> extractImageData r = Inr (''data:'' @ mimeType b @ '';base64,'' @ data b))
   \<and> ((\<forall>q \<in> set (parts r). inlineData q = None) \<longrightarrow>
        extractImageData r =
          Inl (if finishReason r \<noteq> ''STOP'' \<and> finishReason r \<noteq> ''MAX_TOKENS''
               then GenerationRefused (finishReason r) else NoImageProduced))
   \<and> extractImageData \<lparr>parts = [\<lparr>inlineData = Some \<lparr>data = ''AAA='', mimeType = ''image/png''\<rparr>,
                                  partText = None\<rparr>], finishReason = fr\<rparr>
        = Inr ''data:image/png;base64,AAA=''
   \<and> (GenerationRefused x = GenerationRefused y \<longrightarrow> x = y)
   \<and> GenerationRefused x \<noteq> NoImageProduced"
proof -
  have first: "\<forall>ps p b qs. parts r = ps @ p # qs \<and> (\<forall>q \<in> set ps. inlineData q = None)
        \<and> inlineData p = Some b
      \<longrightarrow> extractImageData r = Inr (''data:'' @ mimeType b @ '';base64,'' @ data b)"
    by (auto simp: extractImageData_def extractLoop_first)
  have none: "(\<forall>q \<in> set (parts r). inlineData q = None) \<longrightarrow>
        extractImageData r =
          Inl (if finishReason r \<noteq> ''STOP'' \<and> finishReason r \<noteq> ''MAX_TOKENS''
               then GenerationRefused (finishReason r) else NoImageProduced)"
    by (simp add: extractImageData_def extractLoop_none GenerationRefused_def NoImageProduced_def)
  have ex: "extractImageData \<lparr>parts = [\<lparr>inlineData = Some \<lparr>data = ''AAA='', mimeType = ''image/png''\<rparr>,
                                  partText = None\<rparr>], finishReason = fr\<rparr>
        = Inr ''data:image/png;base64,AAA=''"
    by (simp add: extractImageData_def)
  have inj: "GenerationRefused x = GenerationRefused y \<longrightarrow> x = y"
    by (simp add: GenerationRefused_def)
  have diff: "GenerationRefused x \<noteq> NoImageProduced"
    by (simp add: GenerationRefused_def NoImageProduced_def)
  from first none ex inj diff show ?thesis by blast
qed

theorem extractImageData_policy_witness:
  "extractImageData
     \<lparr>parts = [\<lparr>inlineData = None, partText = Some ''here it is''\<rparr>,
               \<lparr>inlineData = Some \<lparr>data = ''AAA='', mimeType = ''image/png''\<rparr>, partText = None\<rparr>,
               \<lparr>inlineData = Some \<lparr>data = ''BBB='', mimeType = ''image/webp''\<rparr>, partText = None\<rparr>],
      finishReason = ''STOP''\<rparr>
     = Inr ''data:image/png;base64,AAA=''
   \<and> extractImageData \<lparr>parts = [\<lparr>inlineData = None, partText = Some ''no''\<rparr>],
                         finishReason = ''SAFETY''\<rparr>
     = Inl (GenerationRefused ''SAFETY'')
   \<and> extractImageData \<lparr>parts = [\<lparr>inlineData = None, partText = Some ''no''\<rparr>],
                         finishReason = ''STOP''\<rparr>
     = Inl NoImageProduced
   \<and> extractImageData \<lparr>parts = [], finishReason = ''MAX_TOKENS''\<rparr> = Inl NoImageProduced"
proof -
  let ?t = "\<lparr>inlineData = None, partText = Some ''here it is''\<rparr>"
  let ?a = "\<lparr>inlineData = Some \<lparr>data = ''AAA='', mimeType = ''image/png''\<rparr>, partText = None\<rparr>"
  let ?b = "\<lparr>inlineData = Some \<lparr>data = ''BBB='', mimeType = ''image/webp''\<rparr>, partText = None\<rparr>"
  let ?n = "\<lparr>inlineData = None, partText = Some ''no''\<rparr>"
  have a: "extractImageData \<lparr>parts = [?t, ?a, ?b], finishReason = ''STOP''\<rparr>
             = Inr ''data:image/png;base64,AAA=''"
    using extractImageData_policy [of "\<lparr>parts = [?t, ?a, ?b], finishReason = ''STOP''\<rparr>",
        THEN conjunct1, THEN spec, of "[?t]", THEN spec, of ?a,
        THEN spec, of "\<lparr>data = ''AAA='', mimeType = ''image/png''\<rparr>", THEN spec, of "[?b]"]
    by simp
  have b: "extractImageData \<lparr>parts = [?n], finishReason = ''SAFETY''\<rparr>
             = Inl (GenerationRefused ''SAFETY'')"
    using extractImageData_policy [of "\<lparr>parts = [?n], finishReason = ''SAFETY''\<rparr>"]
    by simp
  have c: "extractImageData \<lparr>parts = [?n], finishReason = ''STOP''\<rparr> = Inl NoImageProduced"
    using extractImageData_policy [of "\<lparr>parts = [?n], finishReason = ''STOP''\<rparr>"]
    by simp
  have d: "extractImageData \<lparr>parts = [], finishReason = ''MAX_TOKENS''\<rparr> = Inl NoImageProduced"
    using extractImageData_policy [of "\<lparr>parts = [], finishReason = ''MAX_TOKENS''\<rparr>"]
    by simp
  from a b c d show ?thesis by blast
qed

section \<open>The data URL test of fileToGenerativePart\<close>







lemma fileToGenerativePart_image:
  "fileToGenerativePart u = Inr p \<Longrightarrow> inlineData p \<noteq> None \<and> partText p = None"
  by (auto simp: fileToGenerativePart_def split: option.splits)

section \<open>The parts generatePosedVariation assembles\<close>

lemma generatePosedVariation_sent:
  "fst (generatePosedVariation net m g) = [ps] \<longleftrightarrow> assembleParts m g = Inr ps"
  by (auto simp: generatePosedVariation_def split: sum.splits)

lemma truthy_Some: "truthy x = Some s \<longleftrightarrow> x = Some s \<and> s \<noteq> []"
  by (cases x) auto

lemma refinementBranch_image:
  "truthy (referenceImage g) \<noteq> None \<or> truthy (sketchImage g) \<noteq> None \<Longrightarrow>
   refinementBranch g =
     (case guidanceText g of
        Some t \<Rightarrow> if trim t \<noteq> [] then refinementClause t else []
      | None \<Rightarrow> [])"
  by (cases "guidanceText g") (auto simp: refinementBranch_def trim_def)

lemma assembleParts_reference:
  assumes "truthy (referenceImage g) = Some refImg" and "assembleParts m g = Inr ps"
  shows "\<exists>pm pg. fileToGenerativePart m = Inr pm \<and> fileToGenerativePart refImg = Inr pg
     \<and> ps = [pm, pg, \<lparr>inlineData = None,
                        partText = Some (basePrompt @ referenceClause @ refinementBranch g)\<rparr>]"
  using assms
  by (auto simp: assembleParts_def guidanceBranch_def split: sum.splits option.splits)

lemma assembleParts_sketch:
  assumes "truthy (referenceImage g) = None" and "truthy (sketchImage g) = Some sk"
    and "assembleParts m g = Inr ps"
  shows "\<exists>pm pg. fileToGenerativePart m = Inr pm \<and> fileToGenerativePart sk = Inr pg
     \<and> ps = [pm, pg, \<lparr>inlineData = None,
                        partText = Some (basePrompt @ sketchClause @ refinementBranch g)\<rparr>]"
  using assms
  by (auto simp: assembleParts_def guidanceBranch_def split: sum.splits option.splits)

lemma assembleParts_text:
  assumes "truthy (referenceImage g) = None" and "truthy (sketchImage g) = None"
    and "assembleParts m g = Inr ps"
  shows "\<exists>pm. fileToGenerativePart m = Inr pm
     \<and> ps = [pm, \<lparr>inlineData = None,
                    partText = Some (basePrompt @
                      (case truthy (guidanceText g) of Some t \<Rightarrow> textClause t | None \<Rightarrow> []))\<rparr>]"
  using assms
  by (auto simp: assembleParts_def guidanceBranch_def refinementBranch_def
           split: sum.splits option.splits)

text \<open>
  Claim C6, as amended. Whenever generatePosedVariation sends a request, its parts
  are, in this order: the part of the source model image; then, exactly when a
  reference image or a sketch is present (a non-empty string), the one part of that
  guidance image; then one text part, last. In an image-guidance mode the prompt is
  the fixed template, then the fixed guidance text of the mode, then the refinement
  clause with the custom instruction when that instruction is not blank (not empty
  once trimmed); a blank instruction adds nothing. The instruction never stands in
  place of the guidance text.
\<close>

theorem generatePosedVariation_parts_order:
  assumes "fst (generatePosedVariation net srcImage guidance) = [ps]"
  shows "\<exists>modelPart prompt.
      fileToGenerativePart srcImage = Inr modelPart
    \<and> inlineData modelPart \<noteq> None
    \<and> (case truthy (referenceImage guidance) of
         Some refImg \<Rightarrow>
           (\<exists>pg. fileToGenerativePart refImg = Inr pg \<and> inlineData pg \<noteq> None
              \<and> ps = [modelPart, pg, \<lparr>inlineData = None, partText = Some prompt\<rparr>]
              \<and> prompt = basePrompt @ referenceClause @
                   (case guidanceText guidance of
                      Some t \<Rightarrow> if trim t \<noteq> [] then refinementClause t else []
                    | None \<Rightarrow> []))
       | None \<Rightarrow>
           (case truthy (sketchImage guidance) of
              Some sk \<Rightarrow>
                (\<exists>pg. fileToGenerativePart sk = Inr pg \<and> inlineData pg \<noteq> None
                   \<and> ps = [modelPart, pg, \<lparr>inlineData = None, partText = Some prompt\<rparr>]
                   \<and> prompt = basePrompt @ sketchClause @
                        (case guidanceText guidance of
                           Some t \<Rightarrow> if trim t \<noteq> [] then refinementClause t else []
                         | None \<Rightarrow> []))
            | None \<Rightarrow> ps = [modelPart, \<lparr>inlineData = None, partText = Some prompt\<rparr>]))"
proof -
  from assms have a: "assembleParts srcImage guidance = Inr ps"
    by (simp add: generatePosedVariation_sent)
  show ?thesis
  proof (cases "truthy (referenceImage guidance)")
    case (Some refImg)
    from assembleParts_reference [OF Some a] obtain pm pg where
      pm: "fileToGenerativePart srcImage = Inr pm" and pg: "fileToGenerativePart refImg = Inr pg"
      and ps: "ps = [pm, pg, \<lparr>inlineData = None,
                      partText = Some (basePrompt @ referenceClause @ refinementBranch guidance)\<rparr>]"
      by blast
    from Some have r: "refinementBranch guidance =
        (case guidanceText guidance of
           Some t \<Rightarrow> if trim t \<noteq> [] then refinementClause t else [] | None \<Rightarrow> [])"
      by (simp add: refinementBranch_image)
    from pm pg ps r Some fileToGenerativePart_image [OF pm] fileToGenerativePart_image [OF pg]
    show ?thesis by simp
  next
    case None
    show ?thesis
    proof (cases "truthy (sketchImage guidance)")
      case (Some sk)
      from assembleParts_sketch [OF None Some a] obtain pm pg where
        pm: "fileToGenerativePart srcImage = Inr pm" and pg: "fileToGenerativePart sk = Inr pg"
        and ps: "ps = [pm, pg, \<lparr>inlineData = None,
                        partText = Some (basePrompt @ sketchClause @ refinementBranch guidance)\<rparr>]"
        by blast
      from Some have r: "refinementBranch guidance =
          (case guidanceText guidance of
             Some t \<Rightarrow> if trim t \<noteq> [] then refinementClause t else [] | None \<Rightarrow> [])"
        by (simp add: refinementBranch_image)
      from pm pg ps r None Some fileToGenerativePart_image [OF pm] fileToGenerativePart_image [OF pg]
      show ?thesis by simp
    next
      case sk: None
      from assembleParts_text [OF None sk a] obtain pm where
        pm: "fileToGenerativePart srcImage = Inr pm"
        and ps: "ps = [pm, \<lparr>inlineData = None,
                    partText = Some (basePrompt @
                      (case truthy (guidanceText guidance) of Some t \<Rightarrow> textClause t | None \<Rightarrow> []))\<rparr>]"
        by blast
      from pm ps None sk fileToGenerativePart_image [OF pm] show ?thesis by simp
    qed
  qed
qed

theorem generatePosedVariation_parts_order_witness:
  "fst (generatePosedVariation (\<lambda>_. Inl NonError) ''data:image/png;base64,AAA=''
          \<lparr>guidanceText = Some ''add dramatic lighting'',
           referenceImage = Some ''data:image/jpeg;base64,BBB='', sketchImage = None\<rparr>)
     = [[\<lparr>inlineData = Some \<lparr>data = ''AAA='', mimeType = ''image/png''\<rparr>, partText = None\<rparr>,
         \<lparr>inlineData = Some \<lparr>data = ''BBB='', mimeType = ''image/jpeg''\<rparr>, partText = None\<rparr>,
         \<lparr>inlineData = None,
          partText = Some (basePrompt @ referenceClause
                           @ refinementClause ''add dramatic lighting'')\<rparr>]]
   \<and> (\<exists>pg prompt.
        [\<lparr>inlineData = Some \<lparr>data = ''AAA='', mimeType = ''image/png''\<rparr>, partText = None\<rparr>,
         \<lparr>inlineData = Some \<lparr>data = ''BBB='', mimeType = ''image/jpeg''\<rparr>, partText = None\<rparr>,
         \<lparr>inlineData = None,
          partText = Some (basePrompt @ referenceClause
                           @ refinementClause ''add dramatic lighting'')\<rparr>]
        = [\<lparr>inlineData = Some \<lparr>data = ''AAA='', mimeType = ''image/png''\<rparr>, partText = None\<rparr>,
           pg, \<lparr>inlineData = None, partText = Some prompt\<rparr>]
        \<and> inlineData pg \<noteq> None
        \<and> prompt = basePrompt @ referenceClause @ refinementClause ''add dramatic lighting'')"
proof -
  let ?g = "\<lparr>guidanceText = Some ''add dramatic lighting'',
             referenceImage = Some ''data:image/jpeg;base64,BBB='', sketchImage = None\<rparr>"
  let ?ps = "[\<lparr>inlineData = Some \<lparr>data = ''AAA='', mimeType = ''image/png''\<rparr>, partText = None\<rparr>,
         \<lparr>inlineData = Some \<lparr>data = ''BBB='', mimeType = ''image/jpeg''\<rparr>, partText = None\<rparr>,
         \<lparr>inlineData = None,
          partText = Some (basePrompt @ referenceClause
                           @ refinementClause ''add dramatic lighting'')\<rparr>]"
  have m: "fileToGenerativePart ''data:image/png;base64,AAA=''
             = Inr \<lparr>inlineData = Some \<lparr>data = ''AAA='', mimeType = ''image/png''\<rparr>, partText = None\<rparr>"
    by (simp add: fileToGenerativePart_def matchDataUrl_def supportedMimes_def isLineTerminator_def)
  have r: "fileToGenerativePart ''data:image/jpeg;base64,BBB=''
             = Inr \<lparr>inlineData = Some \<lparr>data = ''BBB='', mimeType = ''image/jpeg''\<rparr>, partText = None\<rparr>"
    by (simp add: fileToGenerativePart_def matchDataUrl_def supportedMimes_def isLineTerminator_def)
  have t: "trim ''add dramatic lighting'' \<noteq> []"
    by (simp add: trim_def isWhiteSpace_def)
  have h: "fst (generatePosedVariation (\<lambda>_. Inl NonError) ''data:image/png;base64,AAA='' ?g) = [?ps]"
    by (simp add: generatePosedVariation_def assembleParts_def guidanceBranch_def
        refinementBranch_def m r t)
  from generatePosedVariation_parts_order [OF h] m r t
  have "\<exists>pg prompt. ?ps
        = [\<lparr>inlineData = Some \<lparr>data = ''AAA='', mimeType = ''image/png''\<rparr>, partText = None\<rparr>,
           pg, \<lparr>inlineData = None, partText = Some prompt\<rparr>]
        \<and> inlineData pg \<noteq> None
        \<and> prompt = basePrompt @ referenceClause @ refinementClause ''add dramatic lighting''"
    by simp
  with h show ?thesis by blast
qed

text \<open>
  Claim C6 as the spec states it fails for an instruction that is not empty but
  blank: with a reference image and the instruction of two spaces, the prompt is the
  template and the reference guidance text, with no refinement clause.
\<close>

theorem blank_instruction_not_appended_counterexample:
  "''  '' \<noteq> []
   \<and> fst (generatePosedVariation (\<lambda>_. Inl NonError) ''data:image/png;base64,AAA=''
          \<lparr>guidanceText = Some ''  '',
           referenceImage = Some ''data:image/jpeg;base64,BBB='', sketchImage = None\<rparr>)
     = [[\<lparr>inlineData = Some \<lparr>data = ''AAA='', mimeType = ''image/png''\<rparr>, partText = None\<rparr>,
         \<lparr>inlineData = Some \<lparr>data = ''BBB='', mimeType = ''image/jpeg''\<rparr>, partText = None\<rparr>,
         \<lparr>inlineData = None, partText = Some (basePrompt @ referenceClause)\<rparr>]]
   \<and> basePrompt @ referenceClause \<noteq> basePrompt @ referenceClause @ refinementClause ''  ''"
proof -
  have m: "fileToGenerativePart ''data:image/png;base64,AAA=''
             = Inr \<lparr>inlineData = Some \<lparr>data = ''AAA='', mimeType = ''image/png''\<rparr>, partText = None\<rparr>"
    by (simp add: fileToGenerativePart_def matchDataUrl_def supportedMimes_def isLineTerminator_def)
  have r: "fileToGenerativePart ''data:image/jpeg;base64,BBB=''
             = Inr \<lparr>inlineData = Some \<lparr>data = ''BBB='', mimeType = ''image/jpeg''\<rparr>, partText = None\<rparr>"
    by (simp add: fileToGenerativePart_def matchDataUrl_def supportedMimes_def isLineTerminator_def)
  have t: "trim ''  '' = []"
    by (simp add: trim_def isWhiteSpace_def)
  have a: "fst (generatePosedVariation (\<lambda>_. Inl NonError) ''data:image/png;base64,AAA=''
          \<lparr>guidanceText = Some ''  '',
           referenceImage = Some ''data:image/jpeg;base64,BBB='', sketchImage = None\<rparr>)
     = [[\<lparr>inlineData = Some \<lparr>data = ''AAA='', mimeType = ''image/png''\<rparr>, partText = None\<rparr>,
         \<lparr>inlineData = Some \<lparr>data = ''BBB='', mimeType = ''image/jpeg''\<rparr>, partText = None\<rparr>,
         \<lparr>inlineData = None, partText = Some (basePrompt @ referenceClause)\<rparr>]]"
    by (simp add: generatePosedVariation_def assembleParts_def guidanceBranch_def
        refinementBranch_def m r t)
  have b: "basePrompt @ referenceClause \<noteq> basePrompt @ referenceClause @ refinementClause ''  ''"
    by (simp add: refinementClause_def)
  from a b show ?thesis by simp
qed

lemma sketch_ignored:
  assumes "truthy (referenceImage g) = Some refImg"
  shows "assembleParts m (g\<lparr>sketchImage := sk\<rparr>) = assembleParts m (g\<lparr>sketchImage := None\<rparr>)"
proof -
  from assms have b: "guidanceBranch (g\<lparr>sketchImage := sk\<rparr>) = guidanceBranch (g\<lparr>sketchImage := None\<rparr>)"
    by (simp add: guidanceBranch_def)
  from assms have r: "refinementBranch (g\<lparr>sketchImage := sk\<rparr>)
      = refinementBranch (g\<lparr>sketchImage := None\<rparr>)"
    by (simp add: refinementBranch_def)
  show ?thesis unfolding assembleParts_def b r by (rule refl)
qed

text \<open>
  Claim C10. When a reference image is supplied, whatever is supplied as sketch is
  ignored: the call behaves as the call without sketch, and a request, when one is
  sent, holds the model image, the reference image and the text part with the
  reference-mode guidance text. Whenever a guidance image (reference or sketch) is
  present, the prompt is the template, the fixed guidance text of that image and, for
  a text that is not blank, the refinement clause: the clause that makes the text the
  pose instruction (\<open>textClause\<close>) is not part of it.
\<close>

theorem reference_over_sketch:
  "(\<forall>refImg. truthy (referenceImage g) = Some refImg \<longrightarrow>
       generatePosedVariation net m (g\<lparr>sketchImage := sk\<rparr>)
         = generatePosedVariation net m (g\<lparr>sketchImage := None\<rparr>)
       \<and> (\<forall>ps. assembleParts m (g\<lparr>sketchImage := sk\<rparr>) = Inr ps \<longrightarrow>
             (\<exists>pm pg. fileToGenerativePart m = Inr pm \<and> fileToGenerativePart refImg = Inr pg
                \<and> ps = [pm, pg,
                     \<lparr>inlineData = None,
                      partText = Some (basePrompt @ referenceClause @
                        (case guidanceText g of
                           Some t \<Rightarrow> if trim t \<noteq> [] then refinementClause t else []
                         | None \<Rightarrow> []))\<rparr>])))
   \<and> (\<forall>ps. (truthy (referenceImage g) \<noteq> None \<or> truthy (sketchImage g) \<noteq> None)
          \<and> assembleParts m g = Inr ps \<longrightarrow>
        partText (last ps) =
          Some (basePrompt
                @ (if truthy (referenceImage g) \<noteq> None then referenceClause else sketchClause)
                @ (case guidanceText g of
                     Some t \<Rightarrow> if trim t \<noteq> [] then refinementClause t else []
                   | None \<Rightarrow> [])))"
proof -
  have both: "generatePosedVariation net m (g\<lparr>sketchImage := sk\<rparr>)
         = generatePosedVariation net m (g\<lparr>sketchImage := None\<rparr>)
       \<and> (\<forall>ps. assembleParts m (g\<lparr>sketchImage := sk\<rparr>) = Inr ps \<longrightarrow>
             (\<exists>pm pg. fileToGenerativePart m = Inr pm \<and> fileToGenerativePart refImg = Inr pg
                \<and> ps = [pm, pg,
                     \<lparr>inlineData = None,
                      partText = Some (basePrompt @ referenceClause @
                        (case guidanceText g of
                           Some t \<Rightarrow> if trim t \<noteq> [] then refinementClause t else []
                         | None \<Rightarrow> []))\<rparr>]))"
    if r: "truthy (referenceImage g) = Some refImg" for refImg
  proof -
    have eq: "generatePosedVariation net m (g\<lparr>sketchImage := sk\<rparr>)
         = generatePosedVariation net m (g\<lparr>sketchImage := None\<rparr>)"
      unfolding generatePosedVariation_def sketch_ignored [OF r, of m sk] by (rule refl)
    have r': "truthy (referenceImage (g\<lparr>sketchImage := sk\<rparr>)) = Some refImg"
      using r by simp
    have rb: "refinementBranch (g\<lparr>sketchImage := sk\<rparr>) =
        (case guidanceText g of
           Some t \<Rightarrow> if trim t \<noteq> [] then refinementClause t else [] | None \<Rightarrow> [])"
      using refinementBranch_image [of "g\<lparr>sketchImage := sk\<rparr>"] r by simp
    have "\<exists>pm pg. fileToGenerativePart m = Inr pm \<and> fileToGenerativePart refImg = Inr pg
                \<and> ps = [pm, pg,
                     \<lparr>inlineData = None,
                      partText = Some (basePrompt @ referenceClause @
                        (case guidanceText g of
                           Some t \<Rightarrow> if trim t \<noteq> [] then refinementClause t else []
                         | None \<Rightarrow> []))\<rparr>]"
      if a: "assembleParts m (g\<lparr>sketchImage := sk\<rparr>) = Inr ps" for ps
      using assembleParts_reference [OF r' a] rb by simp
    with eq show ?thesis by blast
  qed
  have img: "partText (last ps) =
          Some (basePrompt
                @ (if truthy (referenceImage g) \<noteq> None then referenceClause else sketchClause)
                @ (case guidanceText g of
                     Some t \<Rightarrow> if trim t \<noteq> [] then refinementClause t else []
                   | None \<Rightarrow> []))"
    if p: "truthy (referenceImage g) \<noteq> None \<or> truthy (sketchImage g) \<noteq> None"
      and a: "assembleParts m g = Inr ps" for ps
  proof (cases "truthy (referenceImage g)")
    case (Some refImg)
    from assembleParts_reference [OF Some a] refinementBranch_image [OF p] Some
    show ?thesis by auto
  next
    case None
    with p obtain sk' where sk: "truthy (sketchImage g) = Some sk'" by auto
    from assembleParts_sketch [OF None sk a] refinementBranch_image [OF p] None
    show ?thesis by auto
  qed
  from both img show ?thesis by blast
qed

theorem reference_over_sketch_witness:
  "generatePosedVariation (\<lambda>_. Inl NonError) ''data:image/png;base64,AAA=''
      \<lparr>guidanceText = Some ''soft light'', referenceImage = Some ''data:image/jpeg;base64,BBB='',
       sketchImage = Some ''data:image/webp;base64,CCC=''\<rparr>
     = generatePosedVariation (\<lambda>_. Inl NonError) ''data:image/png;base64,AAA=''
      \<lparr>guidanceText = Some ''soft light'', referenceImage = Some ''data:image/jpeg;base64,BBB='',
       sketchImage = None\<rparr>
   \<and> assembleParts ''data:image/png;base64,AAA=''
      \<lparr>guidanceText = Some ''soft light'', referenceImage = Some ''data:image/jpeg;base64,BBB='',
       sketchImage = Some ''data:image/webp;base64,CCC=''\<rparr>
     = Inr [\<lparr>inlineData = Some \<lparr>data = ''AAA='', mimeType = ''image/png''\<rparr>, partText = None\<rparr>,
            \<lparr>inlineData = Some \<lparr>data = ''BBB='', mimeType = ''image/jpeg''\<rparr>, partText = None\<rparr>,
            \<lparr>inlineData = None,
             partText = Some (basePrompt @ referenceClause @ refinementClause ''soft light'')\<rparr>]"
proof -
  let ?g = "\<lparr>guidanceText = Some ''soft light'',
             referenceImage = Some ''data:image/jpeg;base64,BBB='', sketchImage = None\<rparr>"
  let ?sk = "Some ''data:image/webp;base64,CCC=''"
  have r: "truthy (referenceImage ?g) = Some ''data:image/jpeg;base64,BBB=''"
    by simp
  have m: "fileToGenerativePart ''data:image/png;base64,AAA=''
             = Inr \<lparr>inlineData = Some \<lparr>data = ''AAA='', mimeType = ''image/png''\<rparr>, partText = None\<rparr>"
    by (simp add: fileToGenerativePart_def matchDataUrl_def supportedMimes_def isLineTerminator_def)
  have f: "fileToGenerativePart ''data:image/jpeg;base64,BBB=''
             = Inr \<lparr>inlineData = Some \<lparr>data = ''BBB='', mimeType = ''image/jpeg''\<rparr>, partText = None\<rparr>"
    by (simp add: fileToGenerativePart_def matchDataUrl_def supportedMimes_def isLineTerminator_def)
  have t: "trim ''soft light'' \<noteq> []"
    by (simp add: trim_def isWhiteSpace_def)
  have a: "assembleParts ''data:image/png;base64,AAA='' (?g\<lparr>sketchImage := ?sk\<rparr>)
     = Inr [\<lparr>inlineData = Some \<lparr>data = ''AAA='', mimeType = ''image/png''\<rparr>, partText = None\<rparr>,
            \<lparr>inlineData = Some \<lparr>data = ''BBB='', mimeType = ''image/jpeg''\<rparr>, partText = None\<rparr>,
            \<lparr>inlineData = None,
             partText = Some (basePrompt @ referenceClause @ refinementClause ''soft light'')\<rparr>]"
    by (simp add: assembleParts_def guidanceBranch_def refinementBranch_def m f t)
  from reference_over_sketch [of ?g "\<lambda>_. Inl NonError" "''data:image/png;base64,AAA=''" ?sk,
      THEN conjunct1, THEN spec, of "''data:image/jpeg;base64,BBB=''"] r
  have "generatePosedVariation (\<lambda>_. Inl NonError) ''data:image/png;base64,AAA=''
          (?g\<lparr>sketchImage := ?sk\<rparr>)
        = generatePosedVariation (\<lambda>_. Inl NonError) ''data:image/png;base64,AAA=''
          (?g\<lparr>sketchImage := None\<rparr>)"
    by blast
  with a show ?thesis by simp
qed




section \<open>The dispatcher: workers in flight\<close>

lemma awaitingIdx_append: "awaitingIdx (xs @ ys) = awaitingIdx xs @ awaitingIdx ys"
  by (simp add: awaitingIdx_def)

lemma awaitingIdx_Cons: "awaitingIdx (x # xs) = inFlightOf x @ awaitingIdx xs"
  by (simp add: awaitingIdx_def)

lemma awaitingIdx_split:
  assumes "w < length ws"
  shows "awaitingIdx ws
     = awaitingIdx (take w ws) @ inFlightOf (ws ! w) @ awaitingIdx (drop (Suc w) ws)"
proof -
  from assms have "ws = take w ws @ (ws ! w) # drop (Suc w) ws"
    by (simp add: id_take_nth_drop)
  then have "awaitingIdx ws = awaitingIdx (take w ws @ (ws ! w) # drop (Suc w) ws)"
    by simp
  then show ?thesis by (simp only: awaitingIdx_append awaitingIdx_Cons)
qed

lemma awaitingIdx_update:
  "w < length ws \<Longrightarrow>
   awaitingIdx (ws[w := x])
     = awaitingIdx (take w ws) @ inFlightOf x @ awaitingIdx (drop (Suc w) ws)"
  by (simp add: upd_conv_take_nth_drop awaitingIdx_append awaitingIdx_Cons)

text \<open>Replacing a worker that is not in flight by one that is not in flight.\<close>

lemma awaitingIdx_idle:
  assumes "w < length ws" "inFlightOf (ws ! w) = []" "inFlightOf x = []"
  shows "awaitingIdx (ws[w := x]) = awaitingIdx ws"
  using awaitingIdx_split [OF assms(1)] awaitingIdx_update [OF assms(1), of x] assms(2,3)
  by simp

lemma inFlightOf_mem: "i \<in> set (inFlightOf x) \<longleftrightarrow> (\<exists>m g. x = Awaiting i m g)"
  by (cases x) auto

lemma awaitingIdx_mem:
  "i \<in> set (awaitingIdx ws) \<longleftrightarrow> (\<exists>w < length ws. \<exists>m g. ws ! w = Awaiting i m g)"
proof -
  have "i \<in> set (awaitingIdx ws) \<longleftrightarrow> (\<exists>x \<in> set ws. \<exists>m g. x = Awaiting i m g)"
    by (simp add: awaitingIdx_def inFlightOf_mem)
  also have "\<dots> \<longleftrightarrow> (\<exists>w < length ws. \<exists>m g. ws ! w = Awaiting i m g)"
    by (metis in_set_conv_nth)
  finally show ?thesis .
qed

lemma awaitingIdx_length_le: "length (awaitingIdx ws) \<le> length ws"
proof (induction ws)
  case Nil
  show ?case by (simp add: awaitingIdx_def)
next
  case (Cons x xs)
  then show ?case by (cases x) (simp_all add: awaitingIdx_Cons)
qed

lemma imageId_nth:
  assumes "map imageId gi = [0..<n]" "i < n"
  shows "imageId (gi ! i) = i" and "i < length gi" and "length gi = n"
proof -
  from assms(1) have l: "length gi = n"
    by (metis diff_zero length_map length_upt)
  with assms(2) show "i < length gi" by simp
  then have "map imageId gi ! i = imageId (gi ! i)" by simp
  with assms show "imageId (gi ! i) = i" by simp
  from l show "length gi = n" .
qed

lemma queue_hd:
  assumes "q = drop n (enumerate 0 prompts)" "q = (index, p) # rest" "n \<le> length prompts"
  shows "index = n" "p = prompts ! n" "n < length prompts"
    "rest = drop (Suc n) (enumerate 0 prompts)"
proof -
  have "n \<noteq> length prompts"
    using assms(1,2) by auto
  with assms(3) show lt: "n < length prompts" by simp
  then have "drop n (enumerate 0 prompts)
      = enumerate 0 prompts ! n # drop (Suc n) (enumerate 0 prompts)"
    by (simp add: Cons_nth_drop_Suc)
  moreover have "enumerate 0 prompts ! n = (n, prompts ! n)"
    using lt by (simp add: nth_enumerate_eq)
  ultimately have "(index, p) # rest = (n, prompts ! n) # drop (Suc n) (enumerate 0 prompts)"
    using assms(1,2) by simp
  then show "index = n" "p = prompts ! n" "rest = drop (Suc n) (enumerate 0 prompts)"
    by simp_all
qed

lemma queue_empty:
  assumes "queueOk prompts s" "queue s = []"
  shows "length (claimLog s) = length prompts"
  using assms by (simp add: queueOk_def)

lemma all_Finished_nth:
  "list_all (\<lambda>x. x = Finished) ws \<Longrightarrow> w < length ws \<Longrightarrow> ws ! w = Finished"
  by (simp add: list_all_length)

lemma Finished_update:
  "Finished \<in> set (ws[w := x]) \<Longrightarrow> x \<noteq> Finished \<Longrightarrow> Finished \<in> set ws"
  using set_update_subset_insert [of ws w x] by auto

lemma Awaiting_update:
  assumes "v < length ws" "(ws[w := x]) ! v = Awaiting i m g"
  shows "(v = w \<and> x = Awaiting i m g) \<or> ws ! v = Awaiting i m g"
  using assms by (cases "v = w") simp_all

section \<open>The dispatcher: every step keeps the invariant\<close>

lemma awaitingIdx_start:
  assumes "w < length ws" "inFlightOf (ws ! w) = []"
  shows "awaitingIdx (ws[w := Awaiting i m g])
           = awaitingIdx (take w ws) @ [i] @ awaitingIdx (drop (Suc w) ws)"
    and "awaitingIdx ws = awaitingIdx (take w ws) @ awaitingIdx (drop (Suc w) ws)"
  using awaitingIdx_update [OF assms(1), of "Awaiting i m g"] awaitingIdx_split [OF assms(1)]
    assms(2)
  by simp_all

lemma awaitingIdx_stop:
  assumes "w < length ws" "ws ! w = Awaiting i m g" "inFlightOf x = []"
  shows "awaitingIdx (ws[w := x]) = awaitingIdx (take w ws) @ awaitingIdx (drop (Suc w) ws)"
    and "awaitingIdx ws = awaitingIdx (take w ws) @ [i] @ awaitingIdx (drop (Suc w) ws)"
  using awaitingIdx_update [OF assms(1), of x] awaitingIdx_split [OF assms(1)] assms(2,3)
  by simp_all

lemma processNext_claim:
  assumes "queueOk prompts s" "queue s \<noteq> []"
  shows "processNext app mi w s =
      s\<lparr>queue := drop (Suc (length (claimLog s))) (enumerate 0 prompts),
        claimLog := claimLog s @ [(w, length (claimLog s))],
        workers := (workers s)[w := Awaiting (length (claimLog s)) mi
                                   (jobGuidance app (prompts ! length (claimLog s)))]\<rparr>"
    and "length (claimLog s) < length prompts"
proof -
  obtain index p rest where qs: "queue s = (index, p) # rest"
    using assms(2) by (cases "queue s") auto
  from assms(1) have q0: "queue s = drop (length (claimLog s)) (enumerate 0 prompts)"
    and le: "length (claimLog s) \<le> length prompts"
    by (simp_all add: queueOk_def)
  note h = queue_hd [OF q0 qs le]
  from h show "length (claimLog s) < length prompts" by simp
  from h show "processNext app mi w s =
      s\<lparr>queue := drop (Suc (length (claimLog s))) (enumerate 0 prompts),
        claimLog := claimLog s @ [(w, length (claimLog s))],
        workers := (workers s)[w := Awaiting (length (claimLog s)) mi
                                   (jobGuidance app (prompts ! length (claimLog s)))]\<rparr>"
    by (simp add: processNext_def qs)
qed

lemma inv_claim:
  assumes inv: "runInv app mi prompts s" and w: "w < length (workers s)"
    and r: "workers s ! w = Resuming" and q: "queue s \<noteq> []"
  shows "runInv app mi prompts (processNext app mi w s)"
proof -
  let ?n = "length (claimLog s)"
  let ?ws = "workers s"
  let ?x = "Awaiting ?n mi (jobGuidance app (prompts ! ?n))"
  from inv have qo: "queueOk prompts s" and jo: "jobsOk prompts s" and fo: "flightOk s"
    and wo: "workersOk app mi prompts s"
    by (simp_all add: runInv_def)
  note pn = processNext_claim(1) [OF qo q, of app mi w] processNext_claim(2) [OF qo q]
  from r have idle: "inFlightOf (?ws ! w) = []" by simp
  note a = awaitingIdx_start(1) [OF w idle, of ?n mi "jobGuidance app (prompts ! ?n)"]
    awaitingIdx_start(2) [OF w idle]
  from fo have lt: "list_all (\<lambda>i. i < ?n) (awaitingIdx ?ws)" and d: "distinct (awaitingIdx ?ws)"
    and c: "completedCount s + length (awaitingIdx ?ws) = ?n"
    by (simp_all add: flightOk_def)
  from lt have nn: "?n \<notin> set (awaitingIdx ?ws)"
    by (auto simp: list_all_iff)
  have setA: "set (awaitingIdx (?ws[w := ?x])) = insert ?n (set (awaitingIdx ?ws))"
    by (simp add: a)
  have lenA: "length (awaitingIdx (?ws[w := ?x])) = Suc (length (awaitingIdx ?ws))"
    by (simp add: a)
  have disA: "distinct (awaitingIdx (?ws[w := ?x]))"
    using d nn by (simp add: a)
  have 1: "queueOk prompts (processNext app mi w s)"
    using qo pn(2) w by (simp add: pn(1) queueOk_def)
  have 2: "jobsOk prompts (processNext app mi w s)"
    using jo by (auto simp: pn(1) jobsOk_def setA)
  have 3: "flightOk (processNext app mi w s)"
    using lt c disA by (auto simp: pn(1) flightOk_def lenA list_all_iff setA)
  have 4: "workersOk app mi prompts (processNext app mi w s)"
    unfolding workersOk_def
  proof (intro conjI allI impI)
    fix v i m g
    assume v: "v < length (workers (processNext app mi w s))"
      and aw: "workers (processNext app mi w s) ! v = Awaiting i m g"
    from v have v': "v < length ?ws" by (simp add: pn(1))
    from aw have "(?ws[w := ?x]) ! v = Awaiting i m g" by (simp add: pn(1))
    from Awaiting_update [OF v' this] wo v'
    show "m = mi" and "g = jobGuidance app (prompts ! i)"
      by (auto simp: workersOk_def)
  next
    assume "Finished \<in> set (workers (processNext app mi w s))"
    then have "Finished \<in> set ?ws"
      using Finished_update [of ?ws w ?x] by (simp add: pn(1))
    with wo pn(2) show "length (claimLog (processNext app mi w s)) = length prompts"
      by (simp add: workersOk_def)
  next
    assume "\<not> isLoading (processNext app mi w s)"
    then have "\<not> isLoading s" by (simp add: pn(1))
    with wo have "list_all (\<lambda>x. x = Finished) ?ws" by (simp add: workersOk_def)
    from all_Finished_nth [OF this w] r
    show "list_all (\<lambda>x. x = Finished) (workers (processNext app mi w s))" by simp
  qed
  from 1 2 3 4 show ?thesis by (simp add: runInv_def)
qed

lemma inv_finish:
  assumes inv: "runInv app mi prompts s" and w: "w < length (workers s)"
    and r: "workers s ! w = Resuming" and q: "queue s = []"
  shows "runInv app mi prompts (s\<lparr>workers := (workers s)[w := Finished]\<rparr>)"
proof -
  let ?ws = "workers s"
  from inv have qo: "queueOk prompts s" and jo: "jobsOk prompts s" and fo: "flightOk s"
    and wo: "workersOk app mi prompts s"
    by (simp_all add: runInv_def)
  from r have a: "awaitingIdx (?ws[w := Finished]) = awaitingIdx ?ws"
    using awaitingIdx_idle [OF w, of Finished] by simp
  have 1: "queueOk prompts (s\<lparr>workers := ?ws[w := Finished]\<rparr>)"
    using qo by (simp add: queueOk_def)
  have 2: "jobsOk prompts (s\<lparr>workers := ?ws[w := Finished]\<rparr>)"
    using jo by (simp add: jobsOk_def a)
  have 3: "flightOk (s\<lparr>workers := ?ws[w := Finished]\<rparr>)"
    using fo by (simp add: flightOk_def a)
  have 4: "workersOk app mi prompts (s\<lparr>workers := ?ws[w := Finished]\<rparr>)"
    unfolding workersOk_def
  proof (intro conjI allI impI)
    fix v i m g
    assume v: "v < length (workers (s\<lparr>workers := ?ws[w := Finished]\<rparr>))"
      and aw: "workers (s\<lparr>workers := ?ws[w := Finished]\<rparr>) ! v = Awaiting i m g"
    from v have v': "v < length ?ws" by simp
    from aw have "(?ws[w := Finished]) ! v = Awaiting i m g" by simp
    from Awaiting_update [OF v' this] wo v'
    show "m = mi" and "g = jobGuidance app (prompts ! i)"
      by (auto simp: workersOk_def)
  next
    from queue_empty [OF qo q]
    show "length (claimLog (s\<lparr>workers := ?ws[w := Finished]\<rparr>)) = length prompts" by simp
  next
    assume "\<not> isLoading (s\<lparr>workers := ?ws[w := Finished]\<rparr>)"
    then have "\<not> isLoading s" by simp
    with wo have "list_all (\<lambda>x. x = Finished) ?ws" by (simp add: workersOk_def)
    from all_Finished_nth [OF this w] r
    show "list_all (\<lambda>x. x = Finished) (workers (s\<lparr>workers := ?ws[w := Finished]\<rparr>))" by simp
  qed
  from 1 2 3 4 show ?thesis by (simp add: runInv_def)
qed

lemma inv_workerLoop:
  assumes "runInv app mi prompts s" "w < length (workers s)" "workers s ! w = Resuming"
  shows "runInv app mi prompts (workerLoop app mi w s)"
proof (cases "queue s = []")
  case True
  with inv_finish [OF assms True] show ?thesis by (simp add: workerLoop_def)
next
  case False
  with inv_claim [OF assms False] show ?thesis by (simp add: workerLoop_def)
qed

lemma settle_eq:
  "settle w index outcome s =
     s\<lparr>generatedImages := map (settleJob index outcome) (generatedImages s),
       completedCount := completedCount s + 1,
       progress := completedCount s + 1,
       workers := (workers s)[w := Resuming]\<rparr>"
  by (cases outcome) (simp_all add: settle_def settleJob_def)

lemma settleJob_imageId: "imageId (settleJob index outcome img) = imageId img"
  by (cases outcome) (simp_all add: settleJob_def)

lemma settleJob_status:
  "status (settleJob index outcome img) =
     (if imageId img = index then (case outcome of Inr u \<Rightarrow> Done | Inl e \<Rightarrow> Failed)
      else status img)"
  by (cases outcome) (simp_all add: settleJob_def)

lemma settleJob_not_Pending:
  "imageId img = index \<Longrightarrow> status (settleJob index outcome img) \<noteq> Pending"
  by (cases outcome) (simp_all add: settleJob_def)

lemma inv_settle:
  assumes inv: "runInv app mi prompts s" and w: "w < length (workers s)"
    and r: "workers s ! w = Awaiting index m g"
  shows "runInv app mi prompts (settle w index outcome s)"
proof -
  let ?n = "length (claimLog s)"
  let ?ws = "workers s"
  let ?s' = "settle w index outcome s"
  from inv have qo: "queueOk prompts s" and jo: "jobsOk prompts s" and fo: "flightOk s"
    and wo: "workersOk app mi prompts s"
    by (simp_all add: runInv_def)
  have idle: "inFlightOf Resuming = []" by simp
  note a = awaitingIdx_stop [OF w r idle]
  from fo have lt: "list_all (\<lambda>i. i < ?n) (awaitingIdx ?ws)" and d: "distinct (awaitingIdx ?ws)"
    and c: "completedCount s + length (awaitingIdx ?ws) = ?n"
    by (simp_all add: flightOk_def)
  from lt have ixn: "index < ?n" by (simp add: a(2))
  from qo have nN: "?n \<le> length prompts" by (simp add: queueOk_def)
  have setA: "set (awaitingIdx (?ws[w := Resuming])) = set (awaitingIdx ?ws) - {index}"
    using d by (auto simp: a)
  have lenA: "Suc (length (awaitingIdx (?ws[w := Resuming]))) = length (awaitingIdx ?ws)"
    by (simp add: a)
  have disA: "distinct (awaitingIdx (?ws[w := Resuming]))"
    using d by (simp add: a)
  have 1: "queueOk prompts ?s'"
    using qo by (simp add: settle_eq queueOk_def)
  from jo have ids: "map imageId (generatedImages s) = [0..<length prompts]"
    and pend: "\<forall>i < length prompts. status (generatedImages s ! i) = Pending
            \<longleftrightarrow> (i \<in> set (awaitingIdx ?ws) \<or> ?n \<le> i)"
    by (simp_all add: jobsOk_def)
  have 2: "jobsOk prompts ?s'"
    unfolding jobsOk_def
  proof (intro conjI allI impI)
    show "map imageId (generatedImages ?s') = [0..<length prompts]"
      using ids by (simp add: settle_eq o_def settleJob_imageId)
  next
    fix i assume i: "i < length prompts"
    note n = imageId_nth [OF ids i]
    have st: "status (generatedImages ?s' ! i)
        = (if i = index then (case outcome of Inr u \<Rightarrow> Done | Inl e \<Rightarrow> Failed)
           else status (generatedImages s ! i))"
      using n by (simp add: settle_eq settleJob_status)
    show "status (generatedImages ?s' ! i) = Pending
        \<longleftrightarrow> (i \<in> set (awaitingIdx (workers ?s')) \<or> length (claimLog ?s') \<le> i)"
    proof (cases "i = index")
      case True
      then have "status (generatedImages ?s' ! i) \<noteq> Pending"
        using st by (cases outcome) simp_all
      with True ixn show ?thesis by (simp add: settle_eq setA)
    next
      case False
      with st pend i show ?thesis by (simp add: settle_eq setA)
    qed
  qed
  have 3: "flightOk ?s'"
    using lt c disA lenA by (auto simp: settle_eq flightOk_def list_all_iff setA)
  have 4: "workersOk app mi prompts ?s'"
    unfolding workersOk_def
  proof (intro conjI allI impI)
    fix v i m' g'
    assume v: "v < length (workers ?s')"
      and aw: "workers ?s' ! v = Awaiting i m' g'"
    from v have v': "v < length ?ws" by (simp add: settle_eq)
    from aw have "(?ws[w := Resuming]) ! v = Awaiting i m' g'" by (simp add: settle_eq)
    from Awaiting_update [OF v' this] wo v'
    show "m' = mi" and "g' = jobGuidance app (prompts ! i)"
      by (auto simp: workersOk_def)
  next
    assume "Finished \<in> set (workers ?s')"
    then have "Finished \<in> set ?ws"
      using Finished_update [of ?ws w Resuming] by (simp add: settle_eq)
    with wo show "length (claimLog ?s') = length prompts"
      by (simp add: workersOk_def settle_eq)
  next
    assume "\<not> isLoading ?s'"
    then have "\<not> isLoading s" by (simp add: settle_eq)
    with wo have "list_all (\<lambda>x. x = Finished) ?ws" by (simp add: workersOk_def)
    from all_Finished_nth [OF this w] r
    show "list_all (\<lambda>x. x = Finished) (workers ?s')" by simp
  qed
  from 1 2 3 4 show ?thesis by (simp add: runInv_def)
qed

lemma inv_complete:
  assumes "runInv app mi prompts s" "list_all (\<lambda>x. x = Finished) (workers s)"
  shows "runInv app mi prompts (s\<lparr>isLoading := False\<rparr>)"
  using assms
  by (simp add: runInv_def queueOk_def jobsOk_def flightOk_def workersOk_def)

lemma inv_step:
  assumes "runInv app mi prompts s" "step app mi e s = Some s'"
  shows "runInv app mi prompts s'"
proof (cases e)
  case (Settle w reply)
  with assms(2) obtain index m g where "w < length (workers s)"
    "workers s ! w = Awaiting index m g"
    "s' = settle w index (snd (generatePosedVariation (\<lambda>_. reply) m g)) s"
    by (auto split: if_splits worker.splits)
  with inv_settle [OF assms(1)] show ?thesis by blast
next
  case (Resume w)
  with assms(2) have "w < length (workers s)" "workers s ! w = Resuming"
    "s' = workerLoop app mi w s"
    by (auto split: if_splits)
  with inv_workerLoop [OF assms(1)] show ?thesis by blast
next
  case Complete
  with assms(2) have "list_all (\<lambda>x. x = Finished) (workers s)" "s' = s\<lparr>isLoading := False\<rparr>"
    by (auto split: if_splits)
  with inv_complete [OF assms(1)] show ?thesis by blast
qed

lemma inv_run:
  "runInv app mi prompts s \<Longrightarrow> run app mi es s = Some s' \<Longrightarrow> runInv app mi prompts s'"
proof (induction es arbitrary: s)
  case Nil
  then show ?case by simp
next
  case (Cons e es)
  from Cons.prems(2) obtain s1 where s1: "step app mi e s = Some s1" "run app mi es s1 = Some s'"
    by (auto split: option.splits)
  from inv_step [OF Cons.prems(1) s1(1)] Cons.IH s1(2) show ?case by blast
qed

lemma inv_initRun: "runInv app mi prompts (initRun prompts)"
  by (simp add: runInv_def queueOk_def jobsOk_def flightOk_def workersOk_def initRun_def
      awaitingIdx_def o_def map_idI)

lemma inv_append:
  assumes "runInv app mi prompts s" "isLoading s"
  shows "runInv app mi prompts (s\<lparr>workers := workers s @ [Resuming]\<rparr>)"
proof -
  have a: "awaitingIdx (workers s @ [Resuming]) = awaitingIdx (workers s)"
    by (simp add: awaitingIdx_append awaitingIdx_Cons awaitingIdx_def)
  from assms(1) have qo: "queueOk prompts s" and jo: "jobsOk prompts s" and fo: "flightOk s"
    and wo: "workersOk app mi prompts s"
    by (simp_all add: runInv_def)
  have 1: "queueOk prompts (s\<lparr>workers := workers s @ [Resuming]\<rparr>)"
    using qo by (auto simp: queueOk_def list_all_iff)
  have 2: "jobsOk prompts (s\<lparr>workers := workers s @ [Resuming]\<rparr>)"
    using jo by (simp add: jobsOk_def a)
  have 3: "flightOk (s\<lparr>workers := workers s @ [Resuming]\<rparr>)"
    using fo by (simp add: flightOk_def a)
  have 4: "workersOk app mi prompts (s\<lparr>workers := workers s @ [Resuming]\<rparr>)"
    using wo assms(2) by (auto simp: workersOk_def nth_append less_Suc_eq)
  from 1 2 3 4 show ?thesis by (simp add: runInv_def)
qed

lemma workerLoop_frame:
  "isLoading (workerLoop app mi w s) = isLoading s"
  "length (workers (workerLoop app mi w s)) = length (workers s)"
  "generatedImages (workerLoop app mi w s) = generatedImages s"
  "completedCount (workerLoop app mi w s) = completedCount s"
  by (auto simp: workerLoop_def processNext_def split: list.splits)

lemma startWorker_inv:
  assumes "runInv app mi prompts s" "isLoading s"
  shows "runInv app mi prompts (startWorker app mi s)"
    and "isLoading (startWorker app mi s)"
    and "length (workers (startWorker app mi s)) = Suc (length (workers s))"
proof -
  let ?s1 = "s\<lparr>workers := workers s @ [Resuming]\<rparr>"
  have w: "length (workers s) < length (workers ?s1)" by simp
  have r: "workers ?s1 ! length (workers s) = Resuming" by simp
  from inv_workerLoop [OF inv_append [OF assms] w r]
  show "runInv app mi prompts (startWorker app mi s)" by (simp add: startWorker_def)
  from assms(2) show "isLoading (startWorker app mi s)"
    by (simp add: startWorker_def workerLoop_frame)
  show "length (workers (startWorker app mi s)) = Suc (length (workers s))"
    by (simp add: startWorker_def workerLoop_frame)
qed

lemma processQueue_inv:
  assumes "runInv app mi prompts s" "isLoading s"
  shows "runInv app mi prompts (processQueue k app mi s)
       \<and> isLoading (processQueue k app mi s)
       \<and> length (workers (processQueue k app mi s)) = length (workers s) + k"
proof (induction k)
  case 0
  with assms show ?case by (simp add: processQueue_def)
next
  case (Suc k)
  have "processQueue (Suc k) app mi s = startWorker app mi (processQueue k app mi s)"
    by (simp add: processQueue_def)
  with Suc startWorker_inv [of app mi prompts "processQueue k app mi s"] show ?case by simp
qed

lemma reachable_inv:
  assumes "run app mi es (processQueue k app mi (initRun prompts)) = Some s"
  shows "runInv app mi prompts s"
proof -
  have "isLoading (initRun prompts)" by (simp add: initRun_def)
  from processQueue_inv [OF inv_initRun this, of app mi k]
  have "runInv app mi prompts (processQueue k app mi (initRun prompts))" by blast
  from inv_run [OF this assms] show ?thesis .
qed

section \<open>The dispatcher: every event lowers the work by one\<close>

lemma filter_update_length:
  assumes "w < length ws"
  shows "length (filter P (ws[w := x])) + (if P (ws ! w) then 1 else 0)
       = length (filter P ws) + (if P x then 1 else 0)"
proof -
  from assms have "ws = take w ws @ (ws ! w) # drop (Suc w) ws"
    by (simp add: id_take_nth_drop)
  then have "length (filter P ws)
      = length (filter P (take w ws @ (ws ! w) # drop (Suc w) ws))"
    by simp
  then have "length (filter P ws)
      = length (filter P (take w ws)) + (if P (ws ! w) then 1 else 0)
        + length (filter P (drop (Suc w) ws))"
    by (simp only: filter_append filter.simps length_append) simp
  moreover have "length (filter P (ws[w := x]))
      = length (filter P (take w ws)) + (if P x then 1 else 0)
        + length (filter P (drop (Suc w) ws))"
    using assms by (simp add: upd_conv_take_nth_drop)
  ultimately show ?thesis by simp
qed

lemma awaitingIdx_update_length:
  assumes "w < length ws"
  shows "length (awaitingIdx (ws[w := x])) + length (inFlightOf (ws ! w))
       = length (awaitingIdx ws) + length (inFlightOf x)"
  using awaitingIdx_update [OF assms, of x] awaitingIdx_split [OF assms] by simp

lemma work_workerLoop:
  assumes "w < length (workers s)" "workers s ! w = Resuming"
  shows "Suc (work (workerLoop app mi w s)) = work s"
proof (cases "queue s")
  case Nil
  from filter_update_length [OF assms(1), of "\<lambda>x. x = Resuming" Finished] assms(2)
  have "Suc (length (filter (\<lambda>x. x = Resuming) ((workers s)[w := Finished])))
      = length (filter (\<lambda>x. x = Resuming) (workers s))" by simp
  moreover from awaitingIdx_update_length [OF assms(1), of Finished] assms(2)
  have "length (awaitingIdx ((workers s)[w := Finished])) = length (awaitingIdx (workers s))"
    by simp
  ultimately show ?thesis using Nil by (simp add: workerLoop_def work_def)
next
  case (Cons a rest)
  obtain index p where a: "a = (index, p)" by (cases a)
  let ?x = "Awaiting index mi (jobGuidance app p)"
  from filter_update_length [OF assms(1), of "\<lambda>x. x = Resuming" ?x] assms(2)
  have "Suc (length (filter (\<lambda>x. x = Resuming) ((workers s)[w := ?x])))
      = length (filter (\<lambda>x. x = Resuming) (workers s))" by simp
  moreover from awaitingIdx_update_length [OF assms(1), of ?x] assms(2)
  have "length (awaitingIdx ((workers s)[w := ?x])) = Suc (length (awaitingIdx (workers s)))"
    by simp
  ultimately show ?thesis using Cons a by (simp add: workerLoop_def processNext_def work_def)
qed

lemma work_settle:
  assumes "w < length (workers s)" "workers s ! w = Awaiting index m g"
  shows "Suc (work (settle w index outcome s)) = work s"
proof -
  from filter_update_length [OF assms(1), of "\<lambda>x. x = Resuming" Resuming] assms(2)
  have "length (filter (\<lambda>x. x = Resuming) ((workers s)[w := Resuming]))
      = Suc (length (filter (\<lambda>x. x = Resuming) (workers s)))" by simp
  moreover from awaitingIdx_update_length [OF assms(1), of Resuming] assms(2)
  have "Suc (length (awaitingIdx ((workers s)[w := Resuming]))) = length (awaitingIdx (workers s))"
    by simp
  ultimately show ?thesis by (simp add: settle_eq work_def)
qed

lemma work_step:
  assumes "step app mi e s = Some s'"
  shows "Suc (work s') = work s"
proof (cases e)
  case (Settle w reply)
  with assms obtain index m g where "w < length (workers s)"
    "workers s ! w = Awaiting index m g"
    "s' = settle w index (snd (generatePosedVariation (\<lambda>_. reply) m g)) s"
    by (auto split: if_splits worker.splits)
  with work_settle show ?thesis by blast
next
  case (Resume w)
  with assms have "w < length (workers s)" "workers s ! w = Resuming"
    "s' = workerLoop app mi w s"
    by (auto split: if_splits)
  with work_workerLoop show ?thesis by blast
next
  case Complete
  with assms have "isLoading s" "s' = s\<lparr>isLoading := False\<rparr>"
    by (auto split: if_splits)
  then show ?thesis by (simp add: work_def)
qed

lemma work_run: "run app mi es s = Some s' \<Longrightarrow> length es + work s' = work s"
proof (induction es arbitrary: s)
  case Nil
  then show ?case by simp
next
  case (Cons e es)
  from Cons.prems obtain s1 where s1: "step app mi e s = Some s1" "run app mi es s1 = Some s'"
    by (auto split: option.splits)
  from work_step [OF s1(1)] Cons.IH [OF s1(2)] show ?case by simp
qed

lemma work_startWorker: "work (startWorker app mi s) = work s"
proof -
  let ?s1 = "s\<lparr>workers := workers s @ [Resuming]\<rparr>"
  have "Suc (work (workerLoop app mi (length (workers s)) ?s1)) = work ?s1"
    by (rule work_workerLoop) simp_all
  moreover have "work ?s1 = Suc (work s)"
    by (simp add: work_def awaitingIdx_append awaitingIdx_Cons awaitingIdx_def)
  ultimately show ?thesis by (simp add: startWorker_def)
qed

lemma work_processQueue: "work (processQueue k app mi s) = work s"
  by (induction k) (simp_all add: processQueue_def work_startWorker)

lemma work_initRun: "work (initRun prompts) = 2 * length prompts + 1"
  by (simp add: work_def initRun_def awaitingIdx_def)

section \<open>The dispatcher: progress and the final state\<close>

lemma progress_step:
  assumes "isLoading s"
  shows "\<exists>e s'. step app mi e s = Some s'"
proof (cases "list_all (\<lambda>x. x = Finished) (workers s)")
  case True
  with assms have "step app mi Complete s = Some (s\<lparr>isLoading := False\<rparr>)" by simp
  then show ?thesis by blast
next
  case False
  then obtain w where w: "w < length (workers s)" "workers s ! w \<noteq> Finished"
    by (auto simp: list_all_length)
  show ?thesis
  proof (cases "workers s ! w")
    case (Awaiting index m g)
    with w have "step app mi (Settle w (Inl NonError)) s
        = Some (settle w index (snd (generatePosedVariation (\<lambda>_. Inl NonError) m g)) s)"
      by simp
    then show ?thesis by blast
  next
    case Resuming
    with w have "step app mi (Resume w) s = Some (workerLoop app mi w s)" by simp
    then show ?thesis by blast
  next
    case Finished
    with w show ?thesis by simp
  qed
qed

lemma run_append:
  "run app mi (es @ es') s = (case run app mi es s of None \<Rightarrow> None | Some s1 \<Rightarrow> run app mi es' s1)"
  by (induction es arbitrary: s) (auto split: option.splits)

lemma completion:
  "\<exists>es s'. run app mi es s = Some s' \<and> \<not> isLoading s'"
proof (induction "work s" arbitrary: s rule: less_induct)
  case less
  show ?case
  proof (cases "isLoading s")
    case False
    then have "run app mi [] s = Some s \<and> \<not> isLoading s" by simp
    then show ?thesis by blast
  next
    case True
    from progress_step [OF True] obtain e s1 where s1: "step app mi e s = Some s1" by blast
    from work_step [OF s1] have "work s1 < work s" by simp
    from less [OF this] obtain es s' where "run app mi es s1 = Some s'" "\<not> isLoading s'" by blast
    with s1 have "run app mi (e # es) s = Some s' \<and> \<not> isLoading s'" by simp
    then show ?thesis by blast
  qed
qed

lemma all_Finished_idle:
  "list_all (\<lambda>x. x = Finished) ws \<Longrightarrow> awaitingIdx ws = []"
  by (induction ws) (simp_all add: awaitingIdx_def)

lemma status_cases: "st \<noteq> Pending \<Longrightarrow> st = Done \<or> st = Failed"
  by (cases st) simp_all

lemma final_state:
  assumes inv: "runInv app mi prompts s" and fin: "\<not> isLoading s" and k: "0 < length (workers s)"
  shows "length (generatedImages s) = length prompts"
    and "list_all terminal (generatedImages s)"
    and "completedCount s = length prompts"
    and "queue s = []"
    and "map snd (claimLog s) = [0..<length prompts]"
proof -
  from inv have qo: "queueOk prompts s" and jo: "jobsOk prompts s" and fo: "flightOk s"
    and wo: "workersOk app mi prompts s"
    by (simp_all add: runInv_def)
  from wo fin have af: "list_all (\<lambda>x. x = Finished) (workers s)" by (simp add: workersOk_def)
  from all_Finished_nth [OF af k] k have "Finished \<in> set (workers s)"
    by (metis nth_mem)
  with wo have n: "length (claimLog s) = length prompts" by (simp add: workersOk_def)
  note idle = all_Finished_idle [OF af]
  from jo have ids: "map imageId (generatedImages s) = [0..<length prompts]"
    by (simp add: jobsOk_def)
  then show len: "length (generatedImages s) = length prompts"
    by (metis diff_zero length_map length_upt)
  from fo idle n show "completedCount s = length prompts" by (simp add: flightOk_def)
  from qo n show "queue s = []" by (simp add: queueOk_def)
  from qo n show "map snd (claimLog s) = [0..<length prompts]" by (simp add: queueOk_def)
  have "\<forall>i < length prompts. status (generatedImages s ! i) \<noteq> Pending"
    using jo idle n by (simp add: jobsOk_def)
  then have "\<forall>i < length (generatedImages s). terminal (generatedImages s ! i)"
    using len status_cases by (auto simp: terminal_def)
  then show "list_all terminal (generatedImages s)" by (simp add: list_all_length)
qed

section \<open>Runs started by handleGenerate\<close>

lemma handleGenerateWith_Inr:
  assumes "handleGenerateWith limit random app = Inr s0"
  shows "\<exists>mi. truthy (modelImage app) = Some mi
     \<and> s0 = processQueue limit app mi (initRun (makePrompts random app))"
  using assms by (auto simp: handleGenerateWith_def split: option.splits if_splits)

lemma length_makePrompts: "length (makePrompts random app) = numVariations app"
  by (simp add: makePrompts_def)

lemma step_workers_length:
  assumes "step app mi e s = Some s'"
  shows "length (workers s') = length (workers s)"
proof (cases e)
  case (Settle w reply)
  with assms show ?thesis
    by (auto simp: settle_eq split: if_splits worker.splits)
next
  case (Resume w)
  with assms show ?thesis
    by (auto simp: workerLoop_frame split: if_splits)
next
  case Complete
  with assms show ?thesis
    by (auto split: if_splits)
qed

lemma run_workers_length:
  "run app mi es s = Some s' \<Longrightarrow> length (workers s') = length (workers s)"
proof (induction es arbitrary: s)
  case Nil
  then show ?case by simp
next
  case (Cons e es)
  from Cons.prems obtain s1 where s1: "step app mi e s = Some s1" "run app mi es s1 = Some s'"
    by (auto split: option.splits)
  from step_workers_length [OF s1(1)] Cons.IH [OF s1(2)] show ?case by simp
qed

lemma launched_workers:
  "length (workers (processQueue limit app mi (initRun prompts))) = limit"
proof -
  have "isLoading (initRun prompts)" by (simp add: initRun_def)
  from processQueue_inv [OF inv_initRun this, of app mi limit]
  show ?thesis by (simp add: initRun_def)
qed

text \<open>
  Claim C1. A run of the dispatcher started by \<open>handleGenerate\<close> for \<open>N \<ge> 1\<close>
  variations with a concurrency limit \<open>K \<ge> 1\<close> has \<open>N\<close> jobs in every state.
  It never fails and always comes to its end: whatever the network answers and in
  whatever order the tasks are resumed, a run has at most \<open>2 N + 1\<close> events, a state
  in which \<open>isLoading\<close> still holds always has a next event, and from every state the
  run can be brought to the state with \<open>isLoading\<close> false. In that state every job
  is Done or Failed, none is Pending, and the completed-counter is \<open>N\<close>.
\<close>

theorem run_reaches_completed:
  assumes "1 \<le> numVariations app" and "1 \<le> limit"
    and "handleGenerateWith limit random app = Inr s0"
    and "truthy (modelImage app) = Some mi"
    and "run app mi es s0 = Some s"
  shows "length (generatedImages s) = numVariations app
       \<and> length es \<le> 2 * numVariations app + 1
       \<and> (isLoading s \<longrightarrow> (\<exists>e s'. step app mi e s = Some s'))
       \<and> (\<exists>es' s'. run app mi es' s = Some s' \<and> \<not> isLoading s')
       \<and> (\<not> isLoading s \<longrightarrow>
            list_all terminal (generatedImages s)
            \<and> list_all (\<lambda>img. status img \<noteq> Pending) (generatedImages s)
            \<and> completedCount s = numVariations app
            \<and> length es = 2 * numVariations app + 1)"
proof -
  let ?prompts = "makePrompts random app"
  from handleGenerateWith_Inr [OF assms(3)] assms(4)
  have s0: "s0 = processQueue limit app mi (initRun ?prompts)" by auto
  with assms(5) have r: "run app mi es (processQueue limit app mi (initRun ?prompts)) = Some s"
    by simp
  note inv = reachable_inv [OF r]
  have lw: "length (workers s) = limit"
    using run_workers_length [OF r] launched_workers by simp
  have w0: "work s0 = 2 * numVariations app + 1"
    by (simp add: s0 work_processQueue work_initRun length_makePrompts)
  from work_run [OF assms(5)] w0 have wk: "length es + work s = 2 * numVariations app + 1"
    by simp
  from inv have "map imageId (generatedImages s) = [0..<length ?prompts]"
    by (simp add: runInv_def jobsOk_def)
  then have len: "length (generatedImages s) = numVariations app"
    by (metis diff_zero length_map length_upt length_makePrompts)
  have fin: "list_all terminal (generatedImages s)
            \<and> list_all (\<lambda>img. status img \<noteq> Pending) (generatedImages s)
            \<and> completedCount s = numVariations app
            \<and> length es = 2 * numVariations app + 1" if f: "\<not> isLoading s"
  proof -
    from lw assms(2) have k: "0 < length (workers s)" by simp
    note fs = final_state [OF inv f k]
    from inv f have "list_all (\<lambda>x. x = Finished) (workers s)"
      by (simp add: runInv_def workersOk_def)
    then have "awaitingIdx (workers s) = []" "filter (\<lambda>x. x = Resuming) (workers s) = []"
      by (auto simp: all_Finished_idle list_all_iff filter_empty_conv)
    with fs(4) f have "work s = 0" by (simp add: work_def)
    with wk have "length es = 2 * numVariations app + 1" by simp
    moreover from fs(2) have "list_all (\<lambda>img. status img \<noteq> Pending) (generatedImages s)"
      by (auto simp: list_all_iff terminal_def)
    ultimately show ?thesis using fs by (simp add: length_makePrompts)
  qed
  from len wk progress_step [of s app mi] completion [of app mi s] fin
  show ?thesis by auto
qed

theorem run_reaches_completed_witness:
  "\<exists>s0 s.
     handleGenerateWith 2 (\<lambda>_. 0)
       \<lparr>modelImage = Some ''data:image/png;base64,AAA='', poseReferenceImage = None,
        poseSketchImage = None, poseGuidanceMode = TextMode, numVariations = 2,
        customPrompt = ''side profile''\<rparr> = Inr s0
   \<and> run \<lparr>modelImage = Some ''data:image/png;base64,AAA='', poseReferenceImage = None,
        poseSketchImage = None, poseGuidanceMode = TextMode, numVariations = 2,
        customPrompt = ''side profile''\<rparr> ''data:image/png;base64,AAA=''
        [Settle 1 (Inl (JsError ''network down'')),
         Settle 0 (Inr \<lparr>parts = [\<lparr>inlineData = Some \<lparr>data = ''QUJD'', mimeType = ''image/png''\<rparr>,
                                    partText = None\<rparr>], finishReason = ''STOP''\<rparr>),
         Resume 1, Resume 0, Complete] s0 = Some s
   \<and> \<not> isLoading s
   \<and> map status (generatedImages s) = [Done, Failed]
   \<and> completedCount s = 2
   \<and> list_all terminal (generatedImages s)"
proof -
  let ?app = "\<lparr>modelImage = Some ''data:image/png;base64,AAA='', poseReferenceImage = None,
        poseSketchImage = None, poseGuidanceMode = TextMode, numVariations = 2,
        customPrompt = ''side profile''\<rparr>"
  let ?mi = "''data:image/png;base64,AAA=''"
  let ?es = "[Settle 1 (Inl (JsError ''network down'')),
         Settle 0 (Inr \<lparr>parts = [\<lparr>inlineData = Some \<lparr>data = ''QUJD'', mimeType = ''image/png''\<rparr>,
                                    partText = None\<rparr>], finishReason = ''STOP''\<rparr>),
         Resume 1, Resume 0, Complete]"
  have ev: "case handleGenerateWith 2 (\<lambda>_. 0) ?app of
              Inl x \<Rightarrow> False
            | Inr s0 \<Rightarrow> (case run ?app ?mi ?es s0 of
                          None \<Rightarrow> False
                        | Some s \<Rightarrow> \<not> isLoading s \<and> map status (generatedImages s) = [Done, Failed])"
    by code_simp
  then obtain s0 s where h: "handleGenerateWith 2 (\<lambda>_. 0) ?app = Inr s0"
    "run ?app ?mi ?es s0 = Some s" "\<not> isLoading s" "map status (generatedImages s) = [Done, Failed]"
    by (auto split: sum.splits option.splits)
  have n: "1 \<le> numVariations ?app" by simp
  have k: "(1::nat) \<le> 2" by simp
  have m: "truthy (modelImage ?app) = Some ?mi" by simp
  from run_reaches_completed [OF n k h(1) m h(2)] h(3)
  have c: "completedCount s = 2" "list_all terminal (generatedImages s)" by simp_all
  show ?thesis
    by (rule exI [of _ s0], rule exI [of _ s]) (intro conjI h c)
qed

lemma handleGenerateWith_reachable:
  assumes "handleGenerateWith limit random app = Inr s0"
    and "truthy (modelImage app) = Some mi"
    and "run app mi es s0 = Some s"
  shows "runInv app mi (makePrompts random app) s"
    and "length (workers s) = limit"
    and "s0 = processQueue limit app mi (initRun (makePrompts random app))"
proof -
  from handleGenerateWith_Inr [OF assms(1)] assms(2)
  show s0: "s0 = processQueue limit app mi (initRun (makePrompts random app))" by auto
  with assms(3)
  have r: "run app mi es (processQueue limit app mi (initRun (makePrompts random app))) = Some s"
    by simp
  from reachable_inv [OF r] show "runInv app mi (makePrompts random app) s" .
  from run_workers_length [OF r] launched_workers show "length (workers s) = limit" by simp
qed

section \<open>Claims, counter and status of the jobs\<close>

lemma queue_indices:
  assumes "queueOk prompts s"
  shows "map fst (queue s) = [length (claimLog s)..<length prompts]"
proof -
  from assms have q: "queue s = drop (length (claimLog s)) (enumerate 0 prompts)"
    by (simp add: queueOk_def)
  have "map fst (drop (length (claimLog s)) (enumerate 0 prompts))
      = drop (length (claimLog s)) (map fst (enumerate 0 prompts))"
    by (simp only: drop_map)
  also have "\<dots> = [length (claimLog s)..<length prompts]"
    by (simp add: drop_upt)
  finally show ?thesis by (simp add: q)
qed



lemma nonpending_count:
  assumes "runInv app mi prompts s"
  shows "length (filter (\<lambda>img. status img \<noteq> Pending) (generatedImages s)) = completedCount s"
proof -
  let ?n = "length (claimLog s)"
  let ?A = "awaitingIdx (workers s)"
  let ?gi = "generatedImages s"
  from assms have qo: "queueOk prompts s" and jo: "jobsOk prompts s" and fo: "flightOk s"
    by (simp_all add: runInv_def)
  from jo have ids: "map imageId ?gi = [0..<length prompts]"
    and pend: "\<forall>i < length prompts. status (?gi ! i) = Pending \<longleftrightarrow> (i \<in> set ?A \<or> ?n \<le> i)"
    by (simp_all add: jobsOk_def)
  from ids have len: "length ?gi = length prompts"
    by (metis diff_zero length_map length_upt)
  from qo have nN: "?n \<le> length prompts" by (simp add: queueOk_def)
  from fo have sub: "set ?A \<subseteq> {..<?n}" and d: "distinct ?A"
    and c: "completedCount s + length ?A = ?n"
    by (auto simp: flightOk_def list_all_iff)
  have "{i. i < length ?gi \<and> status (?gi ! i) \<noteq> Pending} = {..<?n} - set ?A"
    using pend nN len by auto
  then have "length (filter (\<lambda>img. status img \<noteq> Pending) ?gi) = card ({..<?n} - set ?A)"
    by (simp add: length_filter_conv_card)
  also have "\<dots> = ?n - card (set ?A)"
    using sub by (simp add: card_Diff_subset)
  also have "\<dots> = ?n - length ?A"
    using d by (simp add: distinct_card)
  finally show ?thesis using c by simp
qed

lemma step_status:
  assumes inv: "runInv app mi prompts s" and st: "step app mi e s = Some s'"
    and i: "i < length prompts"
  shows "generatedImages s' ! i = generatedImages s ! i
       \<or> (status (generatedImages s ! i) = Pending \<and> terminal (generatedImages s' ! i))"
proof (cases e)
  case (Settle w reply)
  with st obtain index m g where w: "w < length (workers s)"
    and aw: "workers s ! w = Awaiting index m g"
    and s': "s' = settle w index (snd (generatePosedVariation (\<lambda>_. reply) m g)) s"
    by (auto split: if_splits worker.splits)
  let ?o = "snd (generatePosedVariation (\<lambda>_. reply) m g)"
  from inv have jo: "jobsOk prompts s" by (simp add: runInv_def)
  from jo have ids: "map imageId (generatedImages s) = [0..<length prompts]"
    by (simp add: jobsOk_def)
  note n = imageId_nth [OF ids i]
  have g: "generatedImages s' ! i = settleJob index ?o (generatedImages s ! i)"
    using n by (simp add: s' settle_eq)
  show ?thesis
  proof (cases "i = index")
    case True
    from w aw have "index \<in> set (awaitingIdx (workers s))"
      by (auto simp: awaitingIdx_mem)
    with jo i True have "status (generatedImages s ! i) = Pending" by (simp add: jobsOk_def)
    moreover have "status (settleJob index ?o (generatedImages s ! i))
        = (case ?o of Inr u \<Rightarrow> Done | Inl e \<Rightarrow> Failed)"
      using n(1) True by (simp add: settleJob_status)
    then have "status (generatedImages s' ! i) = (case ?o of Inr u \<Rightarrow> Done | Inl e \<Rightarrow> Failed)"
      by (simp only: g)
    then have "terminal (generatedImages s' ! i)"
      by (cases ?o) (simp_all add: terminal_def)
    ultimately show ?thesis by simp
  next
    case False
    with n have "generatedImages s' ! i = generatedImages s ! i"
      by (simp add: g settleJob_def)
    then show ?thesis by simp
  qed
next
  case (Resume w)
  with st have "generatedImages s' = generatedImages s"
    by (auto simp: workerLoop_frame split: if_splits)
  then show ?thesis by simp
next
  case Complete
  with st have "generatedImages s' = generatedImages s"
    by (auto split: if_splits)
  then show ?thesis by simp
qed

text \<open>
  Claim C4. In every state of a run (the states are those at the suspension points),
  the completed-counter is the number of jobs that are not Pending; the job ids are
  \<open>0, ..., N - 1\<close> in order; and an event leaves a job as it is or takes it from
  Pending to Done or Failed, so that a job changes at most once and a terminal job
  never changes again.
\<close>

theorem counter_matches_jobs:
  assumes "handleGenerateWith limit random app = Inr s0"
    and "truthy (modelImage app) = Some mi"
    and "run app mi es s0 = Some s"
  shows "completedCount s
           = length (filter (\<lambda>img. status img \<noteq> Pending) (generatedImages s))
       \<and> map imageId (generatedImages s) = [0..<numVariations app]
       \<and> (\<forall>e s' i. step app mi e s = Some s' \<and> i < numVariations app \<longrightarrow>
             generatedImages s' ! i = generatedImages s ! i
             \<or> (status (generatedImages s ! i) = Pending \<and> terminal (generatedImages s' ! i)))"
proof -
  note r = handleGenerateWith_reachable [OF assms]
  from nonpending_count [OF r(1)]
  have a: "completedCount s
           = length (filter (\<lambda>img. status img \<noteq> Pending) (generatedImages s))" by simp
  from r(1) have b: "map imageId (generatedImages s) = [0..<numVariations app]"
    by (simp add: runInv_def jobsOk_def length_makePrompts)
  have c: "generatedImages s' ! i = generatedImages s ! i
             \<or> (status (generatedImages s ! i) = Pending \<and> terminal (generatedImages s' ! i))"
    if "step app mi e s = Some s'" "i < numVariations app" for e s' i
    using step_status [OF r(1) that(1), of i] that(2) by (simp add: length_makePrompts)
  show ?thesis
  proof (intro conjI allI impI)
    show "completedCount s
           = length (filter (\<lambda>img. status img \<noteq> Pending) (generatedImages s))" by (rule a)
    show "map imageId (generatedImages s) = [0..<numVariations app]" by (rule b)
    fix e s' i
    assume "step app mi e s = Some s' \<and> i < numVariations app"
    then have "step app mi e s = Some s'" "i < numVariations app" by simp_all
    then show "generatedImages s' ! i = generatedImages s ! i
             \<or> (status (generatedImages s ! i) = Pending \<and> terminal (generatedImages s' ! i))"
      by (rule c)
  qed
qed


theorem counter_matches_jobs_witness:
  "\<exists>s0 s s'.
     handleGenerateWith 2 (\<lambda>_. 0)
       \<lparr>modelImage = Some ''data:image/png;base64,AAA='', poseReferenceImage = None,
        poseSketchImage = None, poseGuidanceMode = TextMode, numVariations = 3,
        customPrompt = ''side profile''\<rparr> = Inr s0
   \<and> run \<lparr>modelImage = Some ''data:image/png;base64,AAA='', poseReferenceImage = None,
        poseSketchImage = None, poseGuidanceMode = TextMode, numVariations = 3,
        customPrompt = ''side profile''\<rparr> ''data:image/png;base64,AAA=''
        [Settle 1 (Inl (JsError ''network down'')), Resume 1] s0 = Some s
   \<and> step \<lparr>modelImage = Some ''data:image/png;base64,AAA='', poseReferenceImage = None,
        poseSketchImage = None, poseGuidanceMode = TextMode, numVariations = 3,
        customPrompt = ''side profile''\<rparr> ''data:image/png;base64,AAA=''
        (Settle 0 (Inl NonError)) s = Some s'
   \<and> map status (generatedImages s) = [Pending, Failed, Pending]
   \<and> map status (generatedImages s') = [Failed, Failed, Pending]
   \<and> completedCount s = 1
   \<and> length (filter (\<lambda>img. status img \<noteq> Pending) (generatedImages s)) = 1
   \<and> map imageId (generatedImages s) = [0..<3]
   \<and> generatedImages s' ! 1 = generatedImages s ! 1
   \<and> terminal (generatedImages s' ! 0)"
proof -
  let ?app = "\<lparr>modelImage = Some ''data:image/png;base64,AAA='', poseReferenceImage = None,
        poseSketchImage = None, poseGuidanceMode = TextMode, numVariations = 3,
        customPrompt = ''side profile''\<rparr>"
  let ?mi = "''data:image/png;base64,AAA=''"
  let ?es = "[Settle 1 (Inl (JsError ''network down'')), Resume 1]"
  have ev: "case handleGenerateWith 2 (\<lambda>_. 0) ?app of
              Inl x \<Rightarrow> False
            | Inr s0 \<Rightarrow> (case run ?app ?mi ?es s0 of
                 None \<Rightarrow> False
               | Some s \<Rightarrow> (case step ?app ?mi (Settle 0 (Inl NonError)) s of
                    None \<Rightarrow> False
                  | Some s' \<Rightarrow> map status (generatedImages s) = [Pending, Failed, Pending]
                      \<and> map status (generatedImages s') = [Failed, Failed, Pending]
                      \<and> completedCount s = 1))"
    by code_simp
  then obtain s0 s s' where h: "handleGenerateWith 2 (\<lambda>_. 0) ?app = Inr s0"
    "run ?app ?mi ?es s0 = Some s" "step ?app ?mi (Settle 0 (Inl NonError)) s = Some s'"
    "map status (generatedImages s) = [Pending, Failed, Pending]"
    "map status (generatedImages s') = [Failed, Failed, Pending]"
    "completedCount s = 1"
    by (auto split: sum.splits option.splits)
  have m: "truthy (modelImage ?app) = Some ?mi" by simp
  note t = counter_matches_jobs [OF h(1) m h(2)]
  from t h(6) have c: "length (filter (\<lambda>img. status img \<noteq> Pending) (generatedImages s)) = 1"
    "map imageId (generatedImages s) = [0..<3]" by simp_all
  from h(4) have l: "length (generatedImages s) = 3"
    by (metis length_map length_Cons list.size(3) numeral_3_eq_3)
  from h(4) l have p: "status (generatedImages s ! 1) = Failed" "status (generatedImages s ! 0) = Pending"
    by (metis nth_map nth_Cons_0 nth_Cons_Suc One_nat_def zero_less_numeral
        one_less_numeral_iff semiring_norm(77))+
  have i1: "(1::nat) < numVariations ?app" and i0: "(0::nat) < numVariations ?app" by simp_all
  from t [THEN conjunct2, THEN conjunct2, THEN spec, THEN spec, THEN spec, of "Settle 0 (Inl NonError)" s' 1]
    h(3) i1 p(1)
  have d1: "generatedImages s' ! 1 = generatedImages s ! 1" by simp
  from h(5) have l': "length (generatedImages s') = 3"
    by (metis length_map length_Cons list.size(3) numeral_3_eq_3)
  from h(5) l' have "status (generatedImages s' ! 0) = Failed"
    by (metis nth_map nth_Cons_0 zero_less_numeral)
  then have d0: "terminal (generatedImages s' ! 0)" by (simp add: terminal_def)
  show ?thesis
    by (rule exI [of _ s0], rule exI [of _ s], rule exI [of _ s']) (intro conjI h c d1 d0)
qed

section \<open>Workers launched and jobs in flight\<close>

lemma startWorker_eq:
  "startWorker app mi s =
     (case queue s of
        [] \<Rightarrow> s\<lparr>workers := workers s @ [Finished]\<rparr>
      | (index, promptText) # rest \<Rightarrow>
          s\<lparr>queue := rest,
            claimLog := claimLog s @ [(length (workers s), index)],
            workers := workers s @ [Awaiting index mi (jobGuidance app promptText)]\<rparr>)"
  by (simp add: startWorker_def workerLoop_def processNext_def split: list.splits)

lemma launch_counts:
  "length (claimLog (processQueue k app mi (initRun prompts))) = min k (length prompts)
   \<and> length (awaitingIdx (workers (processQueue k app mi (initRun prompts))))
       = min k (length prompts)
   \<and> length (filter (\<lambda>x. x = Finished) (workers (processQueue k app mi (initRun prompts))))
       = k - min k (length prompts)"
proof (induction k)
  case 0
  show ?case by (simp add: processQueue_def initRun_def awaitingIdx_def)
next
  case (Suc k)
  let ?s = "processQueue k app mi (initRun prompts)"
  have sk: "processQueue (Suc k) app mi (initRun prompts) = startWorker app mi ?s"
    by (simp add: processQueue_def)
  have "isLoading (initRun prompts)" by (simp add: initRun_def)
  from processQueue_inv [OF inv_initRun this, of app mi k]
  have inv: "runInv app mi prompts ?s" by blast
  then have qo: "queueOk prompts ?s" by (simp add: runInv_def)
  show ?case
  proof (cases "queue ?s")
    case Nil
    from queue_empty [OF qo Nil] Suc have "length prompts \<le> k" by simp
    with Suc Nil show ?thesis
      by (simp add: sk startWorker_eq awaitingIdx_append awaitingIdx_Cons awaitingIdx_def
          min_def Suc_diff_le)
  next
    case (Cons a rest)
    obtain index p where a: "a = (index, p)" by (cases a)
    from Cons have "queue ?s \<noteq> []" by simp
    from processNext_claim(2) [OF qo this] Suc have "k < length prompts" by simp
    with Suc Cons a show ?thesis
      by (simp add: sk startWorker_eq awaitingIdx_append awaitingIdx_Cons awaitingIdx_def min_def)
  qed
qed

lemma inFlight_count:
  assumes "runInv app mi prompts s"
  shows "length (inFlight s) = length (awaitingIdx (workers s))"
    and "length (awaitingIdx (workers s)) \<le> length prompts"
proof -
  let ?n = "length (claimLog s)"
  let ?A = "awaitingIdx (workers s)"
  let ?gi = "generatedImages s"
  from assms have qo: "queueOk prompts s" and jo: "jobsOk prompts s" and fo: "flightOk s"
    by (simp_all add: runInv_def)
  from jo have ids: "map imageId ?gi = [0..<length prompts]"
    and pend: "\<forall>i < length prompts. status (?gi ! i) = Pending \<longleftrightarrow> (i \<in> set ?A \<or> ?n \<le> i)"
    by (simp_all add: jobsOk_def)
  from ids have len: "length ?gi = length prompts"
    by (metis diff_zero length_map length_upt)
  from qo have nN: "?n \<le> length prompts" by (simp add: queueOk_def)
  from fo have sub: "set ?A \<subseteq> {..<?n}" and d: "distinct ?A"
    and c: "completedCount s + length ?A = ?n"
    by (auto simp: flightOk_def list_all_iff)
  from c nN show "length ?A \<le> length prompts" by simp
  have q: "fst ` set (queue s) = {?n..<length prompts}"
    using queue_indices [OF qo] by (metis set_map set_upt)
  have "{i. i < length ?gi \<and> status (?gi ! i) = Pending \<and> imageId (?gi ! i) \<notin> fst ` set (queue s)}
      = set ?A"
  proof (intro set_eqI iffI)
    fix i
    assume "i \<in> {i. i < length ?gi \<and> status (?gi ! i) = Pending
                  \<and> imageId (?gi ! i) \<notin> fst ` set (queue s)}"
    then have i: "i < length prompts" and p: "status (?gi ! i) = Pending"
      and nq: "imageId (?gi ! i) \<notin> fst ` set (queue s)"
      using len by simp_all
    from imageId_nth(1) [OF ids i] nq q i have "i < ?n" by simp
    with pend i p show "i \<in> set ?A" by simp
  next
    fix i
    assume a: "i \<in> set ?A"
    with sub have "i < ?n" by auto
    with nN have i: "i < length prompts" by simp
    from imageId_nth(1) [OF ids i] q \<open>i < ?n\<close> have "imageId (?gi ! i) \<notin> fst ` set (queue s)"
      by simp
    moreover from pend i a have "status (?gi ! i) = Pending" by simp
    ultimately show "i \<in> {i. i < length ?gi \<and> status (?gi ! i) = Pending
                  \<and> imageId (?gi ! i) \<notin> fst ` set (queue s)}"
      using i len by simp
  qed
  then have "length (inFlight s) = card (set ?A)"
    by (simp add: inFlight_def length_filter_conv_card)
  with d show "length (inFlight s) = length ?A" by (simp add: distinct_card)
qed

text \<open>
  Claim C3, as amended. The dispatcher launches exactly \<open>K\<close> workers, whatever \<open>N\<close>
  is, and a run has \<open>K\<close> workers throughout. On launch \<open>min K N\<close> of them claim a
  job each and the other \<open>K - min K N\<close> find the queue empty and return at once. The
  jobs in flight (claimed, not yet terminal) are those the workers wait for, and at
  no point of a run are there more than \<open>min K N\<close> of them, hence never more than \<open>K\<close>.
\<close>

theorem workers_and_in_flight:
  assumes "handleGenerateWith limit random app = Inr s0"
    and "truthy (modelImage app) = Some mi"
    and "run app mi es s0 = Some s"
  shows "length (workers s0) = limit
       \<and> length (workers s) = limit
       \<and> length (awaitingIdx (workers s0)) = min limit (numVariations app)
       \<and> length (filter (\<lambda>x. x = Finished) (workers s0)) = limit - min limit (numVariations app)
       \<and> length (inFlight s) = length (awaitingIdx (workers s))
       \<and> length (inFlight s) \<le> min limit (numVariations app)"
proof -
  note r = handleGenerateWith_reachable [OF assms]
  have a: "length (workers s0) = limit"
    by (simp add: r(3) launched_workers)
  note lc = launch_counts [of limit app mi "makePrompts random app"]
  from lc have b: "length (awaitingIdx (workers s0)) = min limit (numVariations app)"
    by (simp add: r(3) length_makePrompts)
  from lc have c: "length (filter (\<lambda>x. x = Finished) (workers s0))
      = limit - min limit (numVariations app)"
    by (simp add: r(3) length_makePrompts)
  note f = inFlight_count [OF r(1)]
  from f(2) awaitingIdx_length_le [of "workers s"] r(2)
  have d: "length (inFlight s) \<le> min limit (numVariations app)"
    by (simp add: f(1) length_makePrompts)
  show ?thesis by (intro conjI a r(2) b c f(1) d)
qed

theorem workers_and_in_flight_witness:
  "\<exists>s0 s.
     handleGenerateWith 5 (\<lambda>_. 0)
       \<lparr>modelImage = Some ''data:image/png;base64,AAA='', poseReferenceImage = None,
        poseSketchImage = None, poseGuidanceMode = TextMode, numVariations = 3,
        customPrompt = ''side profile''\<rparr> = Inr s0
   \<and> run \<lparr>modelImage = Some ''data:image/png;base64,AAA='', poseReferenceImage = None,
        poseSketchImage = None, poseGuidanceMode = TextMode, numVariations = 3,
        customPrompt = ''side profile''\<rparr> ''data:image/png;base64,AAA=''
        [Settle 1 (Inl (JsError ''network down''))] s0 = Some s
   \<and> map inFlightOf (workers s0) = [[0], [1], [2], [], []]
   \<and> map imageId (inFlight s) = [0, 2]
   \<and> length (workers s0) = 5
   \<and> length (workers s) = 5
   \<and> length (awaitingIdx (workers s0)) = 3
   \<and> length (filter (\<lambda>x. x = Finished) (workers s0)) = 2
   \<and> length (inFlight s) \<le> 3"
proof -
  let ?app = "\<lparr>modelImage = Some ''data:image/png;base64,AAA='', poseReferenceImage = None,
        poseSketchImage = None, poseGuidanceMode = TextMode, numVariations = 3,
        customPrompt = ''side profile''\<rparr>"
  let ?mi = "''data:image/png;base64,AAA=''"
  let ?es = "[Settle 1 (Inl (JsError ''network down''))]"
  have ev: "case handleGenerateWith 5 (\<lambda>_. 0) ?app of
              Inl x \<Rightarrow> False
            | Inr s0 \<Rightarrow> (case run ?app ?mi ?es s0 of
                          None \<Rightarrow> False
                        | Some s \<Rightarrow> map inFlightOf (workers s0) = [[0], [1], [2], [], []]
                            \<and> map imageId (inFlight s) = [0, 2])"
    by code_simp
  then obtain s0 s where h: "handleGenerateWith 5 (\<lambda>_. 0) ?app = Inr s0"
    "run ?app ?mi ?es s0 = Some s" "map inFlightOf (workers s0) = [[0], [1], [2], [], []]"
    "map imageId (inFlight s) = [0, 2]"
    by (auto split: sum.splits option.splits)
  have m: "truthy (modelImage ?app) = Some ?mi" by simp
  from workers_and_in_flight [OF h(1) m h(2)]
  have c: "length (workers s0) = 5" "length (workers s) = 5"
    "length (awaitingIdx (workers s0)) = 3"
    "length (filter (\<lambda>x. x = Finished) (workers s0)) = 2"
    "length (inFlight s) \<le> 3" by simp_all
  show ?thesis
    by (rule exI [of _ s0], rule exI [of _ s]) (intro conjI h c)
qed

text \<open>
  Claim C3 as the spec states it fails: one variation with the concurrency limit of
  the source launches five workers, not \<open>min 5 1 = 1\<close>; the first claims job 0
  and the other four return at once.
\<close>

theorem five_workers_for_one_job_counterexample:
  "map_sum id workers
     (handleGenerate (\<lambda>_. 0)
        \<lparr>modelImage = Some ''data:image/png;base64,AAA='', poseReferenceImage = None,
         poseSketchImage = None, poseGuidanceMode = TextMode, numVariations = 1,
         customPrompt = ''side profile''\<rparr>)
     = Inr [Awaiting 0 ''data:image/png;base64,AAA=''
              \<lparr>guidanceText = Some ''side profile'', referenceImage = None, sketchImage = None\<rparr>,
            Finished, Finished, Finished, Finished]
   \<and> length [Awaiting 0 ''data:image/png;base64,AAA=''
              \<lparr>guidanceText = Some ''side profile'', referenceImage = None, sketchImage = None\<rparr>,
            Finished, Finished, Finished, Finished] \<noteq> min concurrencyLimit 1"
  by code_simp

section \<open>Failure of a job\<close>

lemma fileToGenerativePart_error:
  "fileToGenerativePart u = Inl e \<Longrightarrow> e = InvalidInput"
  by (auto simp: fileToGenerativePart_def InvalidInput_def split: option.splits)

lemma guidanceBranch_error:
  "guidanceBranch g = Inl e \<Longrightarrow> e = InvalidInput"
  by (auto simp: guidanceBranch_def split: option.splits sum.splits
           dest: fileToGenerativePart_error)

lemma assembleParts_error:
  "assembleParts m g = Inl e \<Longrightarrow> e = InvalidInput"
  by (auto simp: assembleParts_def split: sum.splits prod.splits
           dest: fileToGenerativePart_error guidanceBranch_error)

lemma extractImageData_error:
  "extractImageData r = Inl e \<Longrightarrow>
   e = GenerationRefused (finishReason r) \<or> e = NoImageProduced"
  by (auto simp: extractImageData_def GenerationRefused_def NoImageProduced_def
           split: option.splits if_splits)

lemma own_errors_message:
  "errorMessage InvalidInput \<noteq> []" "errorMessage (GenerationRefused x) \<noteq> []"
  "errorMessage NoImageProduced \<noteq> []" "errorMessage NonError \<noteq> []"
  by (simp_all add: errorMessage_def InvalidInput_def GenerationRefused_def NoImageProduced_def)

lemma errorMessage_empty: "errorMessage e = [] \<longleftrightarrow> e = JsError []"
  by (cases e) (simp_all add: errorMessage_def)

lemma outcome_message:
  assumes "snd (generatePosedVariation (\<lambda>_. reply) m g) = Inl e" "errorMessage e = []"
  shows "reply = Inl (JsError [])"
proof (cases "assembleParts m g")
  case (Inl e')
  with assms(1) have "e = e'" by (simp add: generatePosedVariation_def)
  with assembleParts_error [OF Inl] assms(2) own_errors_message(1) show ?thesis by simp
next
  case (Inr ps)
  show ?thesis
  proof (cases reply)
    case (Inl e')
    with Inr assms(1) have "e = e'" by (simp add: generatePosedVariation_def)
    with assms(2) Inl show ?thesis by (simp add: errorMessage_empty)
  next
    case r: (Inr response)
    with Inr assms(1) have "extractImageData response = Inl e"
      by (simp add: generatePosedVariation_def)
    from extractImageData_error [OF this] assms(2) own_errors_message show ?thesis by auto
  qed
qed

lemma terminal_stable:
  assumes "runInv app mi prompts s" "run app mi es s = Some t" "i < length prompts"
    "status (generatedImages s ! i) \<noteq> Pending"
  shows "generatedImages t ! i = generatedImages s ! i"
  using assms
proof (induction es arbitrary: s)
  case Nil
  then show ?case by simp
next
  case (Cons e es)
  from Cons.prems(2) obtain s1 where s1: "step app mi e s = Some s1" "run app mi es s1 = Some t"
    by (auto split: option.splits)
  from step_status [OF Cons.prems(1) s1(1) Cons.prems(3)] Cons.prems(4)
  have eq: "generatedImages s1 ! i = generatedImages s ! i" by auto
  with Cons.prems(4) have "status (generatedImages s1 ! i) \<noteq> Pending" by simp
  from Cons.IH [OF inv_step [OF Cons.prems(1) s1(1)] s1(2) Cons.prems(3) this] eq
  show ?case by simp
qed

text \<open>
  Claim C5, as amended. When the call of a job throws, the job ends Failed with the
  message of the thrown \<open>Error\<close>, or the fixed text when the thrown value is no
  \<open>Error\<close>. The message is empty only when the network call itself threw an
  \<open>Error\<close> whose message is empty; every error the generation client raises has a
  message. Nothing escapes: the event is a step of the run. The other jobs, the queue
  and the other workers are as before, the failed job stays as it is, and the run can
  still be brought to its end, where every job is terminal.
\<close>

theorem failed_job_is_isolated:
  assumes "handleGenerateWith limit random app = Inr s0"
    and "truthy (modelImage app) = Some mi"
    and "run app mi es s0 = Some s"
    and "w < length (workers s)"
    and "workers s ! w = Awaiting index m g"
    and "snd (generatePosedVariation (\<lambda>_. reply) m g) = Inl e"
  shows "\<exists>s'. step app mi (Settle w reply) s = Some s'
       \<and> status (generatedImages s' ! index) = Failed
       \<and> error (generatedImages s' ! index) = Some (errorMessage e)
       \<and> (errorMessage e = [] \<longrightarrow> e = JsError [] \<and> reply = Inl (JsError []))
       \<and> (\<forall>j < numVariations app. j \<noteq> index \<longrightarrow>
             generatedImages s' ! j = generatedImages s ! j)
       \<and> queue s' = queue s
       \<and> isLoading s' = isLoading s
       \<and> (\<forall>v < length (workers s). v \<noteq> w \<longrightarrow> workers s' ! v = workers s ! v)
       \<and> (\<forall>es' t. run app mi es' s' = Some t \<longrightarrow>
             generatedImages t ! index = generatedImages s' ! index)
       \<and> (\<exists>es' t. run app mi es' s' = Some t \<and> \<not> isLoading t
             \<and> list_all terminal (generatedImages t))"
proof -
  let ?prompts = "makePrompts random app"
  let ?s' = "settle w index (Inl e) s"
  note r = handleGenerateWith_reachable [OF assms(1,2,3)]
  from assms(4,5,6) have st: "step app mi (Settle w reply) s = Some ?s'" by simp
  note inv' = inv_step [OF r(1) st]
  from r(1) have jo: "jobsOk ?prompts s" and fo: "flightOk s" and qo: "queueOk ?prompts s"
    by (simp_all add: runInv_def)
  from jo have ids: "map imageId (generatedImages s) = [0..<length ?prompts]"
    by (simp add: jobsOk_def)
  from assms(4,5) have "index \<in> set (awaitingIdx (workers s))"
    by (auto simp: awaitingIdx_mem)
  with fo qo have ix: "index < length ?prompts"
    by (auto simp: flightOk_def queueOk_def list_all_iff)
  note n = imageId_nth [OF ids ix]
  have job: "generatedImages ?s' ! index
      = (generatedImages s ! index)\<lparr>status := Failed, error := Some (errorMessage e)\<rparr>"
    using n by (simp add: settle_eq settleJob_def)
  have a: "status (generatedImages ?s' ! index) = Failed" by (simp add: job)
  have b: "error (generatedImages ?s' ! index) = Some (errorMessage e)" by (simp add: job)
  have c: "errorMessage e = [] \<longrightarrow> e = JsError [] \<and> reply = Inl (JsError [])"
    using outcome_message [OF assms(6)] by (simp add: errorMessage_empty)
  have d: "\<forall>j < numVariations app. j \<noteq> index \<longrightarrow>
             generatedImages ?s' ! j = generatedImages s ! j"
  proof (intro allI impI)
    fix j assume j: "j < numVariations app" "j \<noteq> index"
    then have "j < length ?prompts" by (simp add: length_makePrompts)
    from imageId_nth [OF ids this] j(2)
    show "generatedImages ?s' ! j = generatedImages s ! j"
      by (simp add: settle_eq settleJob_def)
  qed
  have f: "queue ?s' = queue s" "isLoading ?s' = isLoading s" by (simp_all add: settle_eq)
  have h: "\<forall>v < length (workers s). v \<noteq> w \<longrightarrow> workers ?s' ! v = workers s ! v"
    by (simp add: settle_eq)
  have k: "\<forall>es' t. run app mi es' ?s' = Some t \<longrightarrow>
             generatedImages t ! index = generatedImages ?s' ! index"
  proof (intro allI impI)
    fix es' t assume "run app mi es' ?s' = Some t"
    from terminal_stable [OF inv' this ix] a
    show "generatedImages t ! index = generatedImages ?s' ! index" by simp
  qed
  from completion [of app mi ?s'] obtain es' t where
    t: "run app mi es' ?s' = Some t" "\<not> isLoading t" by blast
  from run_workers_length [OF t(1)] have "length (workers t) = length (workers s)"
    by (simp add: settle_eq)
  with assms(4) have "0 < length (workers t)" by linarith
  from final_state(2) [OF inv_run [OF inv' t(1)] t(2) this] t
  have l: "\<exists>es' t. run app mi es' ?s' = Some t \<and> \<not> isLoading t
             \<and> list_all terminal (generatedImages t)" by blast
  show ?thesis
    by (rule exI [of _ ?s']) (intro conjI st a b c d f h k l)
qed

theorem failed_job_is_isolated_witness:
  "\<exists>s0 s'.
     handleGenerateWith 2 (\<lambda>_. 0)
       \<lparr>modelImage = Some ''data:image/png;base64,AAA='', poseReferenceImage = None,
        poseSketchImage = None, poseGuidanceMode = TextMode, numVariations = 2,
        customPrompt = ''side profile''\<rparr> = Inr s0
   \<and> workers s0 ! 1 = Awaiting 1 ''data:image/png;base64,AAA=''
        \<lparr>guidanceText = Some ''side profile'', referenceImage = None, sketchImage = None\<rparr>
   \<and> snd (generatePosedVariation (\<lambda>_. Inl (JsError ''network down''))
          ''data:image/png;base64,AAA=''
          \<lparr>guidanceText = Some ''side profile'', referenceImage = None, sketchImage = None\<rparr>)
       = Inl (JsError ''network down'')
   \<and> step \<lparr>modelImage = Some ''data:image/png;base64,AAA='', poseReferenceImage = None,
        poseSketchImage = None, poseGuidanceMode = TextMode, numVariations = 2,
        customPrompt = ''side profile''\<rparr> ''data:image/png;base64,AAA=''
        (Settle 1 (Inl (JsError ''network down''))) s0 = Some s'
   \<and> status (generatedImages s' ! 1) = Failed
   \<and> error (generatedImages s' ! 1) = Some ''network down''
   \<and> generatedImages s' ! 0 = generatedImages s0 ! 0
   \<and> queue s' = queue s0"
proof -
  let ?app = "\<lparr>modelImage = Some ''data:image/png;base64,AAA='', poseReferenceImage = None,
        poseSketchImage = None, poseGuidanceMode = TextMode, numVariations = 2,
        customPrompt = ''side profile''\<rparr>"
  let ?mi = "''data:image/png;base64,AAA=''"
  let ?g = "\<lparr>guidanceText = Some ''side profile'', referenceImage = None, sketchImage = None\<rparr>"
  let ?reply = "Inl (JsError ''network down'') :: thrown + GenerateContentResponse"
  have ev: "case handleGenerateWith 2 (\<lambda>_. 0) ?app of
              Inl x \<Rightarrow> False
            | Inr s0 \<Rightarrow> workers s0 ! 1 = Awaiting 1 ?mi ?g \<and> length (workers s0) = 2"
    by code_simp
  then obtain s0 where h: "handleGenerateWith 2 (\<lambda>_. 0) ?app = Inr s0"
    "workers s0 ! 1 = Awaiting 1 ?mi ?g" "length (workers s0) = 2"
    by (auto split: sum.splits)
  have o: "snd (generatePosedVariation (\<lambda>_. ?reply) ?mi ?g) = Inl (JsError ''network down'')"
    by code_simp
  have m: "truthy (modelImage ?app) = Some ?mi" by simp
  have r: "run ?app ?mi [] s0 = Some s0" by simp
  from h(3) have w: "1 < length (workers s0)" by simp
  from failed_job_is_isolated [OF h(1) m r w h(2) o]
  obtain s' where s': "step ?app ?mi (Settle 1 ?reply) s0 = Some s'"
    "status (generatedImages s' ! 1) = Failed"
    "error (generatedImages s' ! 1) = Some (errorMessage (JsError ''network down''))"
    "\<forall>j < numVariations ?app. j \<noteq> 1 \<longrightarrow> generatedImages s' ! j = generatedImages s0 ! j"
    "queue s' = queue s0"
    by blast
  from s'(3) have e: "error (generatedImages s' ! 1) = Some ''network down''"
    by (simp add: errorMessage_def)
  from s'(4) have j: "generatedImages s' ! 0 = generatedImages s0 ! 0" by simp
  show ?thesis
    by (rule exI [of _ s0], rule exI [of _ s']) (intro conjI h(1) h(2) o s'(1) s'(2) e j s'(5))
qed

text \<open>
  Claim C5 as the spec states it fails on the message: when the network call throws
  an \<open>Error\<close> whose message is the empty string, the job ends Failed and the
  message it carries is empty.
\<close>

theorem empty_error_message_counterexample:
  "map_sum id
     (\<lambda>s0. map_option (\<lambda>s. map (\<lambda>img. (status img, error img)) (generatedImages s))
        (run \<lparr>modelImage = Some ''data:image/png;base64,AAA='', poseReferenceImage = None,
              poseSketchImage = None, poseGuidanceMode = TextMode, numVariations = 1,
              customPrompt = ''side profile''\<rparr> ''data:image/png;base64,AAA=''
           [Settle 0 (Inl (JsError []))] s0))
     (handleGenerate (\<lambda>_. 0)
        \<lparr>modelImage = Some ''data:image/png;base64,AAA='', poseReferenceImage = None,
         poseSketchImage = None, poseGuidanceMode = TextMode, numVariations = 1,
         customPrompt = ''side profile''\<rparr>)
     = Inr (Some [(Failed, Some [])])"
  by code_simp

section \<open>Prompts in text mode\<close>









end
